theory Spec2Isabelle
  imports Main
begin

section \<open>Strings\<close>

text \<open>
  JavaScript strings are modelled as \<^typ>\<open>string\<close>, read as sequences of ASCII
  characters.  A character outside the ASCII range stands for itself: it has no case
  and is no white space.
\<close>

definition toLowerChar :: "char \<Rightarrow> char" where
  "toLowerChar c =
     (if 65 \<le> (of_char c :: nat) \<and> (of_char c :: nat) \<le> 90
      then char_of ((of_char c :: nat) + 32) else c)"

definition toLowerCase :: "string \<Rightarrow> string" where
  "toLowerCase s = map toLowerChar s"

definition isSpaceChar :: "char \<Rightarrow> bool" where
  "isSpaceChar c = ((of_char c :: nat) \<in> {9, 10, 11, 12, 13, 32})"

definition trim :: "string \<Rightarrow> string" where
  "trim s = rev (dropWhile isSpaceChar (rev (dropWhile isSpaceChar s)))"

fun startsWith :: "string \<Rightarrow> string \<Rightarrow> bool" where
  "startsWith s [] = True"
| "startsWith [] (p # ps) = False"
| "startsWith (c # cs) (p # ps) = (c = p \<and> startsWith cs ps)"

definition endsWith :: "string \<Rightarrow> string \<Rightarrow> bool" where
  "endsWith s t = startsWith (rev s) (rev t)"

fun includesStr :: "string \<Rightarrow> string \<Rightarrow> bool" where
  "includesStr [] sub = (sub = [])"
| "includesStr (c # cs) sub = (startsWith (c # cs) sub \<or> includesStr cs sub)"

section \<open>The platform's URL class\<close>

text \<open>
  \<open>new URL(s)\<close> is provided by the platform.  The classifier reads four properties of
  the parsed object, and \<open>hrefWithParam u k v\<close> is what \<open>u.toString()\<close> returns after
  \<open>u.searchParams.set(k, v)\<close>.  The constructor is a parameter of every function that
  calls it, \<open>None\<close> standing for the \<open>TypeError\<close> it throws on a string that is no URL.
\<close>

record url_parts =
  hostname :: string
  pathname :: string
  search :: string
  searchParams :: "(string \<times> string) list"
  hrefWithParam :: "string \<Rightarrow> string \<Rightarrow> string"

type_synonym url_ctor = "string \<Rightarrow> url_parts option"

section \<open>Permission gatekeeper (BrowserScreen.tsx)\<close>

datatype permissionType = Mic | Gps | Storage | Notifications | Images

text \<open>
  The five \<open>allowed...SitesRef\<close> sets and the five \<open>AsyncStorage\<close> keys of
  \<open>PERMISSION_STORAGE_KEYS\<close>; a key never written reads as \<open>None\<close>, a key written holds
  the JSON array of host names.
\<close>

record perm_state =
  allowedSites :: "permissionType \<Rightarrow> string set"
  persisted :: "permissionType \<Rightarrow> string list option"

definition normalizeHostname :: "string \<Rightarrow> string" where
  "normalizeHostname host =
     (if host = [] \<or> host = ''unknown'' then host
      else if startsWith host ''www.'' then drop 4 host
      else host)"

definition askToRemember :: "permissionType \<Rightarrow> string \<Rightarrow> perm_state \<Rightarrow> perm_state" where
  "askToRemember permType host st =
     (let normalized = normalizeHostname host;
          sites = (case persisted st permType of None \<Rightarrow> [] | Some l \<Rightarrow> l)
      in if normalized \<notin> set sites
         then st\<lparr>persisted := (persisted st)(permType := Some (sites @ [normalized]))\<rparr>
         else st)"

definition removePersistedPermission ::
  "permissionType \<Rightarrow> string \<Rightarrow> perm_state \<Rightarrow> perm_state" where
  "removePersistedPermission permType host st =
     (case persisted st permType of
        None \<Rightarrow> st
      | Some sites \<Rightarrow>
          st\<lparr>persisted := (persisted st)(permType := Some (filter (\<lambda>site. site \<noteq> host) sites))\<rparr>)"

text \<open>
  \<open>loadPersistedPermissions\<close>: every key that holds data replaces the set of its
  capability, a key without data leaves the set as it is.
\<close>

definition loadPersistedPermissions :: "perm_state \<Rightarrow> perm_state" where
  "loadPersistedPermissions st =
     st\<lparr>allowedSites := (\<lambda>t. case persisted st t of
                                 None \<Rightarrow> allowedSites st t
                               | Some sites \<Rightarrow> set sites)\<rparr>"

text \<open>
  The \<open>onPress\<close> handler of a capability toggle in the lock menu (the same body for
  GPS, storage, notifications, images and the iOS mic/camera entry).  \<open>host\<close> is
  \<open>new URL(activeTab.url).hostname\<close>, as the handler receives it.
\<close>

definition disablePermission :: "permissionType \<Rightarrow> string \<Rightarrow> perm_state \<Rightarrow> perm_state" where
  "disablePermission permType host st =
     removePersistedPermission permType host
       (st\<lparr>allowedSites := (allowedSites st)(permType := allowedSites st permType - {host})\<rparr>)"

definition enablePermission :: "permissionType \<Rightarrow> string \<Rightarrow> perm_state \<Rightarrow> perm_state" where
  "enablePermission permType host st =
     askToRemember permType host
       (st\<lparr>allowedSites := (allowedSites st)(permType := insert host (allowedSites st permType))\<rparr>)"

definition togglePermission :: "permissionType \<Rightarrow> string \<Rightarrow> perm_state \<Rightarrow> perm_state" where
  "togglePermission permType host st =
     (if host \<in> allowedSites st permType
      then disablePermission permType host st
      else enablePermission permType host st)"

text \<open>
  The lookup of the readers that enforce a capability (\<open>onPermissionRequest\<close>,
  \<open>handleLoadEnd\<close>, \<open>syncGatekeeperPermissions\<close>, \<open>getPermissionBlockingScript\<close>):
  \<open>allowed...SitesRef.current.has(normalizeHostname(hostname))\<close>.  Other readers (the
  menus' labels among them) test the host name as they hold it.
\<close>

definition isCapabilityAllowed :: "perm_state \<Rightarrow> permissionType \<Rightarrow> string \<Rightarrow> bool" where
  "isCapabilityAllowed st permType host = (normalizeHostname host \<in> allowedSites st permType)"

text \<open>The state of a fresh session and the state after the app is started again.\<close>

definition initialPermState :: perm_state where
  "initialPermState = \<lparr>allowedSites = (\<lambda>_. {}), persisted = (\<lambda>_. None)\<rparr>"

definition restartApp :: "perm_state \<Rightarrow> perm_state" where
  "restartApp st = loadPersistedPermissions (st\<lparr>allowedSites := (\<lambda>_. {})\<rparr>)"

subsection \<open>Native permission requests\<close>

datatype decision = Grant "string list" | Deny

text \<open>
  One round of \<open>resources.forEach\<close>: the pair is \<open>(deniedAny, permissionsToGrant)\<close>.
\<close>

definition resourceStep ::
  "bool \<Rightarrow> bool \<Rightarrow> bool \<Rightarrow> bool \<times> string list \<Rightarrow> string \<Rightarrow> bool \<times> string list" where
  "resourceStep micCameraAllowed gpsAllowed notificationsAllowed acc resource =
     (if resource = ''android.webkit.resource.AUDIO_CAPTURE'' \<or> resource = ''microphone'' \<or>
         resource = ''android.webkit.resource.VIDEO_CAPTURE'' \<or> resource = ''camera''
      then (if micCameraAllowed then (fst acc, snd acc @ [resource]) else (True, snd acc))
      else if resource = ''notifications''
      then (if notificationsAllowed then (fst acc, snd acc @ [resource]) else (True, snd acc))
      else if resource = ''geolocation''
      then (if gpsAllowed then (fst acc, snd acc @ [resource]) else (True, snd acc))
      else if resource = ''android.webkit.resource.PROTECTED_MEDIA_ID'' \<or>
              resource = ''protected_media_id''
      then (fst acc, snd acc @ [resource])
      else (True, snd acc))"

text \<open>
  \<open>onPermissionRequest\<close>: nothing happens for a tab that is not the active one; for the
  active tab the request is granted with \<open>permissionsToGrant\<close> or denied.  \<open>requestUrl\<close> is
  \<open>request.url || request.origin || currentUrl\<close> and \<open>resources\<close> the list of requested
  resource strings.  The log lines and the alert shown after a denial are left out.
\<close>

definition onPermissionRequest ::
  "url_ctor \<Rightarrow> bool \<Rightarrow> perm_state \<Rightarrow> string \<Rightarrow> string list \<Rightarrow> decision option" where
  "onPermissionRequest newURL tabIsActive st requestUrl resources =
     (if tabIsActive then
        (let requestHostname = (case newURL requestUrl of None \<Rightarrow> ''unknown'' | Some u \<Rightarrow> hostname u);
             normalizedHostname = normalizeHostname requestHostname;
             micCameraAllowed = (normalizedHostname \<in> allowedSites st Mic);
             gpsAllowed = (normalizedHostname \<in> allowedSites st Gps);
             notificationsAllowed = (normalizedHostname \<in> allowedSites st Notifications);
             r = foldl (resourceStep micCameraAllowed gpsAllowed notificationsAllowed)
                   (False, []) resources
         in Some (if fst r then Deny else Grant (snd r)))
      else None)"

text \<open>
  The words of the specification, to compare with: the capability a resource string
  names, and the policy of a host name for it.
\<close>

datatype capability = MicCamera | Geolocation | Notification | ProtectedMedia | Unknown

definition capabilityOf :: "string \<Rightarrow> capability" where
  "capabilityOf resource =
     (if resource \<in> {''android.webkit.resource.AUDIO_CAPTURE'', ''microphone'',
                      ''android.webkit.resource.VIDEO_CAPTURE'', ''camera''} then MicCamera
      else if resource = ''geolocation'' then Geolocation
      else if resource = ''notifications'' then Notification
      else if resource \<in> {''android.webkit.resource.PROTECTED_MEDIA_ID'', ''protected_media_id''}
      then ProtectedMedia
      else Unknown)"

definition deniedByPolicy :: "perm_state \<Rightarrow> string \<Rightarrow> string \<Rightarrow> bool" where
  "deniedByPolicy st host resource =
     (case capabilityOf resource of
        MicCamera \<Rightarrow> host \<notin> allowedSites st Mic
      | Geolocation \<Rightarrow> host \<notin> allowedSites st Gps
      | Notification \<Rightarrow> host \<notin> allowedSites st Notifications
      | ProtectedMedia \<Rightarrow> False
      | Unknown \<Rightarrow> True)"

definition requestHost :: "url_ctor \<Rightarrow> string \<Rightarrow> string" where
  "requestHost newURL requestUrl =
     normalizeHostname (case newURL requestUrl of None \<Rightarrow> ''unknown'' | Some u \<Rightarrow> hostname u)"


section \<open>URL classifier\<close>

definition stripWww :: "string \<Rightarrow> string" where
  \<comment> \<open>\<open>s.replace(/^www\./, "")\<close>\<close>
  "stripWww s = (if startsWith s ''www.'' then drop 4 s else s)"

definition withHttps :: "string \<Rightarrow> string" where
  \<comment> \<open>\<open>url.startsWith('http') ? url : `https://${url}`\<close>\<close>
  "withHttps url = (if startsWith url ''http'' then url else ''https://'' @ url)"

definition isLowerLetter :: "char \<Rightarrow> bool" where
  "isLowerLetter c = (97 \<le> (of_char c :: nat) \<and> (of_char c :: nat) \<le> 122)"

definition isUpperLetter :: "char \<Rightarrow> bool" where
  "isUpperLetter c = (65 \<le> (of_char c :: nat) \<and> (of_char c :: nat) \<le> 90)"

definition isDigit :: "char \<Rightarrow> bool" where
  "isDigit c = (48 \<le> (of_char c :: nat) \<and> (of_char c :: nat) \<le> 57)"

definition isAlnum :: "char \<Rightarrow> bool" where
  "isAlnum c = (isLowerLetter c \<or> isUpperLetter c \<or> isDigit c)"

subsection \<open>search_engine_restrictions\<close>

definition authSubdomains :: "string list" where
  "authSubdomains =
     [''accounts.google'', ''myaccount.google'', ''oauth2.googleapis'',
      ''securetoken.googleapis'', ''identitytoolkit.googleapis'', ''gsi.gstatic'',
      ''iframerpc.gstatic'', ''content.googleapis'', ''sts.googleapis'', ''accounts.youtube'']"

definition authPathKeywords :: "string list" where
  "authPathKeywords =
     [''/signin'', ''/oauth'', ''/auth'', ''/login'', ''/accounts'', ''/gsi'', ''/ServiceLogin'',
      ''/CheckCookie'', ''/AccountChooser'', ''/AddSession'', ''/Logout'', ''/challenge'',
      ''/speedbump'', ''/accountlookup'', ''/interstitial'', ''/embedded'', ''/authorization'']"

definition oauthParams :: "string list" where
  "oauthParams =
     [''response_type='', ''client_id='', ''redirect_uri='', ''state='', ''scope='',
      ''continue='', ''authuser='', ''oauth='', ''token='', ''access_token='', ''code='',
      ''grant_type='', ''refresh_token='']"

definition isGoogleAuthUrl :: "url_ctor \<Rightarrow> string \<Rightarrow> bool" where
  "isGoogleAuthUrl newURL url =
     (case newURL (withHttps url) of
        None \<Rightarrow> False
      | Some urlObj \<Rightarrow>
          (let host = toLowerCase (hostname urlObj);
               path = toLowerCase (pathname urlObj);
               query = toLowerCase (search urlObj)
           in if list_ex (\<lambda>sub. includesStr host sub) authSubdomains then True
              else if list_ex (\<lambda>keyword. includesStr path keyword) authPathKeywords then True
              else if list_ex (\<lambda>param. includesStr query param) oauthParams then True
              else False))"

definition matchesGoogleTld :: "string \<Rightarrow> bool" where
  \<comment> \<open>\<open>domain.match(/^google\.[a-z]{2,3}(\.[a-z]{2})?$/)\<close>\<close>
  "matchesGoogleTld domain =
     (startsWith domain ''google.'' \<and>
      (let t = drop 7 domain;
           a = takeWhile (\<lambda>c. c \<noteq> CHR ''.'') t;
           b = dropWhile (\<lambda>c. c \<noteq> CHR ''.'') t
       in list_all isLowerLetter a \<and> (length a = 2 \<or> length a = 3) \<and>
          (b = [] \<or> (length b = 3 \<and> list_all isLowerLetter (drop 1 b)))))"

definition allowedPrefixes :: "string list" where
  "allowedPrefixes =
     [''maps.'', ''drive.'', ''docs.'', ''sheets.'', ''slides.'', ''calendar.'', ''mail.'',
      ''meet.'', ''translate.'', ''play.'', ''accounts.'', ''myaccount.'', ''support.'',
      ''cloud.'', ''apis.'', ''fonts.'', ''firebase.'', ''storage.'']"

definition isGoogleSearchDomain :: "url_ctor \<Rightarrow> string \<Rightarrow> bool" where
  "isGoogleSearchDomain newURL url =
     (case newURL (withHttps url) of
        None \<Rightarrow> False
      | Some urlObj \<Rightarrow>
          (let host = toLowerCase (hostname urlObj);
               domain = stripWww host
           in if isGoogleAuthUrl newURL url then False
              else if domain = ''google.com'' \<or> matchesGoogleTld domain
              then (if list_ex (\<lambda>p. startsWith host p) allowedPrefixes then False else True)
              else False))"

definition isGoogleHomePage :: "url_ctor \<Rightarrow> string \<Rightarrow> bool" where
  "isGoogleHomePage newURL url =
     (case newURL (withHttps url) of
        None \<Rightarrow> False
      | Some urlObj \<Rightarrow>
          (let path = toLowerCase (pathname urlObj) in path = ''/'' \<or> path = ''/webhp''))"

text \<open>
  Log output is left out of every function.  What the classifier reads from its
  surroundings: the list \<open>getAllBlockedDomains()\<close>
  returns (\<open>Blocklist/blocklist.ts\<close>), the two lists \<open>reddit_filters\<close> parses from the
  environment, and the environment variable behind
  \<open>APP_CONFIG.ENABLE_GOOGLE_IMAGES_BLOCKING\<close>, \<open>None\<close> when it is not set.
\<close>

record classifier_env =
  getAllBlockedDomains :: "string list"
  NSFW_REDDIT_PATTERNS :: "string list"
  WILDCARD_REDDIT_KEYWORDS :: "string list"
  envGoogleImagesBlocking :: "string option"

definition ENABLE_GOOGLE_IMAGES_BLOCKING :: "classifier_env \<Rightarrow> bool" where
  \<comment> \<open>\<open>process.env.ENABLE_GOOGLE_IMAGES_BLOCKING === 'false'\<close>\<close>
  "ENABLE_GOOGLE_IMAGES_BLOCKING env = (envGoogleImagesBlocking env = Some ''false'')"

definition isGoogleImagesBlockingEnabled :: "classifier_env \<Rightarrow> bool" where
  "isGoogleImagesBlockingEnabled env = ENABLE_GOOGLE_IMAGES_BLOCKING env"

definition isBlockedGoogleSection :: "url_ctor \<Rightarrow> classifier_env \<Rightarrow> string \<Rightarrow> bool" where
  "isBlockedGoogleSection newURL env url =
     (case newURL (withHttps url) of
        None \<Rightarrow> False
      | Some urlObj \<Rightarrow>
          (let domain = stripWww (toLowerCase (hostname urlObj)) in
           if isGoogleAuthUrl newURL url then False
           else if \<not> includesStr domain ''google.'' then False
           else
             (let path = toLowerCase (pathname urlObj);
                  params = map_of (searchParams urlObj);
                  fullUrl = toLowerCase url
              in if isGoogleImagesBlockingEnabled env \<and>
                    (includesStr path ''/imghp'' \<or> includesStr path ''/images'' \<or>
                     params ''tbm'' = Some ''isch'' \<or> params ''udm'' = Some ''2'' \<or>
                     includesStr fullUrl ''tbm=isch'' \<or> includesStr fullUrl ''udm=2'')
                 then True
                 else if includesStr path ''/videohp'' \<or> includesStr path ''/videos'' \<or>
                         params ''tbm'' = Some ''vid'' \<or> params ''udm'' = Some ''7'' \<or>
                         includesStr fullUrl ''tbm=vid'' \<or> includesStr fullUrl ''udm=7''
                 then True
                 else if includesStr path ''/shorts'' \<or> params ''udm'' = Some ''39'' \<or>
                         includesStr fullUrl ''tbm=shs'' \<or> includesStr fullUrl ''udm=39''
                 then True
                 else False)))"

text \<open>
  The words of the specification for the sections, to compare with: a URL of a Google
  host, and what indicates the Images, the Videos and the Shorts section in it.
\<close>

definition isGoogleHost :: "url_parts \<Rightarrow> bool" where
  "isGoogleHost urlObj = includesStr (stripWww (toLowerCase (hostname urlObj))) ''google.''"

definition indicatesImages :: "url_parts \<Rightarrow> string \<Rightarrow> bool" where
  "indicatesImages urlObj url =
     (includesStr (toLowerCase (pathname urlObj)) ''/imghp'' \<or>
      includesStr (toLowerCase (pathname urlObj)) ''/images'' \<or>
      map_of (searchParams urlObj) ''tbm'' = Some ''isch'' \<or>
      map_of (searchParams urlObj) ''udm'' = Some ''2'' \<or>
      includesStr (toLowerCase url) ''tbm=isch'' \<or> includesStr (toLowerCase url) ''udm=2'')"

definition indicatesVideos :: "url_parts \<Rightarrow> string \<Rightarrow> bool" where
  "indicatesVideos urlObj url =
     (includesStr (toLowerCase (pathname urlObj)) ''/videohp'' \<or>
      includesStr (toLowerCase (pathname urlObj)) ''/videos'' \<or>
      map_of (searchParams urlObj) ''tbm'' = Some ''vid'' \<or>
      map_of (searchParams urlObj) ''udm'' = Some ''7'' \<or>
      includesStr (toLowerCase url) ''tbm=vid'' \<or> includesStr (toLowerCase url) ''udm=7'')"

definition indicatesShorts :: "url_parts \<Rightarrow> string \<Rightarrow> bool" where
  "indicatesShorts urlObj url =
     (includesStr (toLowerCase (pathname urlObj)) ''/shorts'' \<or>
      map_of (searchParams urlObj) ''udm'' = Some ''39'' \<or>
      includesStr (toLowerCase url) ''tbm=shs'' \<or> includesStr (toLowerCase url) ''udm=39'')"

definition enforceGoogleSafeSearch :: "url_ctor \<Rightarrow> string \<Rightarrow> string" where
  "enforceGoogleSafeSearch newURL url =
     (case newURL url of
        None \<Rightarrow> url
      | Some urlObj \<Rightarrow>
          (let domain = toLowerCase (hostname urlObj) in
           if isGoogleAuthUrl newURL url then url
           else if includesStr domain ''google.'' then hrefWithParam urlObj ''safe'' ''active''
           else url))"

subsection \<open>reddit_filters\<close>

definition BLOCKED_REDDIT_PATHS :: "string list" where
  "BLOCKED_REDDIT_PATHS = [''/settings'', ''/search'']"

definition isSubredditChar :: "char \<Rightarrow> bool" where
  \<comment> \<open>the class \<open>[a-z0-9_]\<close> under the flag \<open>i\<close>\<close>
  "isSubredditChar c = (isAlnum c \<or> c = CHR ''_'')"

fun subredditMatch :: "string \<Rightarrow> string option" where
  \<comment> \<open>group 1 of the leftmost match of \<open>/\/r\/([a-z0-9_]+)/i\<close>\<close>
  "subredditMatch [] = None"
| "subredditMatch (c # cs) =
     (if startsWith (c # cs) ''/r/'' \<and> takeWhile isSubredditChar (drop 3 (c # cs)) \<noteq> []
      then Some (takeWhile isSubredditChar (drop 3 (c # cs)))
      else subredditMatch cs)"

definition isNsfwRedditUrl :: "classifier_env \<Rightarrow> string \<Rightarrow> bool" where
  "isNsfwRedditUrl env url =
     (let lowercaseUrl = toLowerCase url in
      if \<not> includesStr lowercaseUrl ''reddit.com'' then False
      else if list_ex (\<lambda>pattern. includesStr lowercaseUrl (toLowerCase pattern))
                   (NSFW_REDDIT_PATTERNS env)
      then True
      else (case subredditMatch lowercaseUrl of
              Some name \<Rightarrow>
                (if list_ex (\<lambda>keyword. includesStr (toLowerCase name) keyword)
                      (WILDCARD_REDDIT_KEYWORDS env)
                 then True else False)
            | None \<Rightarrow> False))"

definition isBlockedRedditPath :: "url_ctor \<Rightarrow> string \<Rightarrow> bool" where
  "isBlockedRedditPath newURL url =
     (case newURL (withHttps url) of
        None \<Rightarrow> False
      | Some urlObj \<Rightarrow>
          (let domain = toLowerCase (hostname urlObj);
               path = toLowerCase (pathname urlObj)
           in if \<not> includesStr domain ''reddit.com'' then False
              else list_ex (\<lambda>blockedPath. path = blockedPath \<or> startsWith path (blockedPath @ ''/''))
                     BLOCKED_REDDIT_PATHS))"

definition enforceRedditSafe :: "url_ctor \<Rightarrow> string \<Rightarrow> string" where
  "enforceRedditSafe newURL url =
     (case newURL url of
        None \<Rightarrow> url
      | Some urlObj \<Rightarrow>
          (let domain = toLowerCase (hostname urlObj) in
           if includesStr domain ''reddit.com''
           then (if includesStr (pathname urlObj) ''/search'' then url
                 else hrefWithParam urlObj ''over18'' ''0'')
           else url))"


subsection \<open>url-utils\<close>

definition BLOCKED_SEARCH_ENGINES :: "string list" where
  "BLOCKED_SEARCH_ENGINES = [''yandex.com'', ''yandex.ru'', ''duckduckgo.com'']"

definition extractDomain :: "url_ctor \<Rightarrow> string \<Rightarrow> string" where
  "extractDomain newURL url =
     (case newURL (withHttps url) of
        Some urlObj \<Rightarrow> stripWww (hostname urlObj)
      | None \<Rightarrow> stripWww url)"

definition isBlockedDomain :: "url_ctor \<Rightarrow> classifier_env \<Rightarrow> string \<Rightarrow> bool" where
  "isBlockedDomain newURL env url =
     (if isGoogleAuthUrl newURL url then False
      else
        (let domain = toLowerCase (extractDomain newURL url);
             allBlocked = getAllBlockedDomains env
         in list_ex (\<lambda>blocked.
                       (let b = toLowerCase blocked
                        in domain = b \<or> endsWith domain (''.'' @ b)))
              allBlocked))"

definition isBlockedSearchEngine :: "url_ctor \<Rightarrow> string \<Rightarrow> bool" where
  "isBlockedSearchEngine newURL url =
     (let domain = toLowerCase (extractDomain newURL url)
      in list_ex (\<lambda>blocked. domain = blocked \<or> endsWith domain (''.'' @ blocked))
           BLOCKED_SEARCH_ENGINES)"

definition isBlockedInstagramUrl :: "url_ctor \<Rightarrow> string \<Rightarrow> bool" where
  "isBlockedInstagramUrl newURL url =
     (case newURL (withHttps url) of
        None \<Rightarrow> False
      | Some urlObj \<Rightarrow>
          (let domain = toLowerCase (hostname urlObj) in
           if \<not> includesStr domain ''instagram.com'' then False
           else
             (let path = pathname urlObj in
              if startsWith path ''/reel/'' \<and> length path > length ''/reel/'' then False
              else if startsWith path ''/p/'' \<and> length path > length ''/p/'' then False
              else True)))"

definition isBlockedFacebookUrl :: "url_ctor \<Rightarrow> string \<Rightarrow> bool" where
  "isBlockedFacebookUrl newURL url =
     (if startsWith url ''sfbfi://'' then False
      else
        (case newURL (withHttps url) of
           None \<Rightarrow> False
         | Some urlObj \<Rightarrow>
             (let domain = toLowerCase (hostname urlObj);
                  isFacebook = (includesStr domain ''facebook.com'' \<or> includesStr domain ''fb.com'' \<or>
                                includesStr domain ''messenger.com'' \<or>
                                includesStr domain ''fbsbx.com'' \<or> includesStr domain ''fb.me'')
              in if \<not> isFacebook then False else False)))"

definition apkPatterns :: "string list" where
  "apkPatterns =
     [''/download.apk'', ''/app.apk'', ''.apk?'', ''.apk&'', ''/apk/'', ''download=apk'',
      ''type=apk'', ''file=apk'', ''format=apk'', ''/getapk'', ''/downloadapk'',
      ''/apk-download'', ''apkpure.com'', ''apkmirror.com'', ''apkcombo.com'', ''apk-dl.com'',
      ''aptoide.com'']"

definition isApkDownload :: "string \<Rightarrow> bool" where
  "isApkDownload url =
     (let lowerUrl = toLowerCase url in
      if endsWith lowerUrl ''.apk'' \<or> endsWith lowerUrl ''.xapk'' \<or> endsWith lowerUrl ''.apkm'' \<or>
         endsWith lowerUrl ''.apkx'' \<or> endsWith lowerUrl ''.apks''
      then True
      else if list_ex (\<lambda>pattern. includesStr lowerUrl pattern) apkPatterns then True
      else if includesStr lowerUrl ''application/vnd.android.package-archive'' \<or>
              includesStr lowerUrl ''application%2fvnd.android.package-archive''
      then True
      else False)"

definition isSchemeChar :: "char \<Rightarrow> bool" where
  "isSchemeChar c = (isAlnum c \<or> c = CHR ''+'' \<or> c = CHR ''.'' \<or> c = CHR ''-'')"

definition hasScheme :: "string \<Rightarrow> bool" where
  \<comment> \<open>\<open>/^[a-z][a-z0-9+.-]*:/i.test(url)\<close>\<close>
  "hasScheme url =
     (case url of
        [] \<Rightarrow> False
      | c # cs \<Rightarrow>
          (isLowerLetter c \<or> isUpperLetter c) \<and>
          (case dropWhile isSchemeChar cs of [] \<Rightarrow> False | d # _ \<Rightarrow> d = CHR '':''))"

record url_decision =
  resultUrl :: string
  blocked :: bool
  reason :: "string option"
  redirect :: "string option"

definition blockedWith :: "string \<Rightarrow> string \<Rightarrow> url_decision" where
  "blockedWith url why = \<lparr>resultUrl = url, blocked = True, reason = Some why, redirect = None\<rparr>"

definition notBlocked :: "string \<Rightarrow> url_decision" where
  "notBlocked url = \<lparr>resultUrl = url, blocked = False, reason = None, redirect = None\<rparr>"

text \<open>
  The rules of \<open>processUrl\<close> that follow the scheme check, on the URL with its scheme.
\<close>

definition processWebUrl :: "url_ctor \<Rightarrow> classifier_env \<Rightarrow> string \<Rightarrow> url_decision" where
  "processWebUrl newURL env url =
     (if isApkDownload url then blockedWith url ''APK downloads are not allowed''
      else if isBlockedDomain newURL env url
      then blockedWith url ''This website is blocked for safety''
      else if isBlockedSearchEngine newURL url
      then blockedWith url ''This search engine is not allowed. Please use Google.''
      else if isBlockedGoogleSection newURL env url
      then blockedWith url ''Google Images, Videos, and Shorts are blocked''
      else if isNsfwRedditUrl env url
      then blockedWith url ''This Reddit content is blocked for safety''
      else if isBlockedRedditPath newURL url
      then blockedWith url ''This Reddit page is blocked''
      else if isBlockedInstagramUrl newURL url
      then blockedWith url ''This Instagram content is blocked. Only reels and posts are allowed.''
      else if isBlockedFacebookUrl newURL url
      then blockedWith url ''This Facebook content is blocked for safety''
      else notBlocked (enforceRedditSafe newURL (enforceGoogleSafeSearch newURL url)))"

definition processUrl :: "url_ctor \<Rightarrow> classifier_env \<Rightarrow> string \<Rightarrow> url_decision" where
  "processUrl newURL env inputUrl =
     (let url = trim inputUrl;
          isWebScheme = (startsWith url ''http://'' \<or> startsWith url ''https://'')
      in if \<not> hasScheme url then processWebUrl newURL env (''https://'' @ url)
         else if \<not> isWebScheme then notBlocked url
         else processWebUrl newURL env url)"


text \<open>The URL the rules of \<open>processUrl\<close> are applied to: trimmed, with a scheme.\<close>

definition webUrlOf :: "string \<Rightarrow> string" where
  "webUrlOf inputUrl =
     (if hasScheme (trim inputUrl) then trim inputUrl else ''https://'' @ trim inputUrl)"

section \<open>Google-domain navigation policy (BrowserScreen.tsx)\<close>

definition SAFE_SEARCH_HOMEPAGE :: string where
  "SAFE_SEARCH_HOMEPAGE = ''https://www.safesearchengine.com/''"

definition truthy :: "string option \<Rightarrow> bool" where
  \<comment> \<open>a value that is neither \<open>null\<close>/\<open>undefined\<close> nor the empty string\<close>
  "truthy v = (case v of None \<Rightarrow> False | Some s \<Rightarrow> s \<noteq> [])"

definition isReferrerFromSafeSearch :: "url_ctor \<Rightarrow> string option \<Rightarrow> bool" where
  "isReferrerFromSafeSearch newURL referrerUrl =
     (case referrerUrl of
        None \<Rightarrow> False
      | Some r \<Rightarrow>
          (if r = [] then False
           else (case newURL (withHttps r) of
                   None \<Rightarrow> False
                 | Some urlObj \<Rightarrow> stripWww (toLowerCase (hostname urlObj)) = ''safesearchengine.com'')))"

record nav_state =
  activeTabId :: "string option"
  activeTabUrl :: "string option"
  previousUrlRef :: "string option"
  authorizedGoogleUrls :: "string list"
  forceNavCounter :: nat

definition queryParamQ :: "url_ctor \<Rightarrow> string \<Rightarrow> string option" where
  \<comment> \<open>\<open>new URL(u).searchParams.get('q')\<close>, \<open>None\<close> also when the constructor throws\<close>
  "queryParamQ newURL u =
     (case newURL u of None \<Rightarrow> None | Some urlObj \<Rightarrow> map_of (searchParams urlObj) ''q'')"

definition checkGoogleUrlAuthorization :: "url_ctor \<Rightarrow> nav_state \<Rightarrow> string \<Rightarrow> bool" where
  "checkGoogleUrlAuthorization newURL st targetUrl =
     (if targetUrl \<in> set (authorizedGoogleUrls st) then True
      else (case newURL targetUrl of
              None \<Rightarrow> False
            | Some targetObj \<Rightarrow>
                (case map_of (searchParams targetObj) ''q'' of
                   None \<Rightarrow> False
                 | Some targetQ \<Rightarrow>
                     (if targetQ = [] then False
                      else list_ex (\<lambda>authUrl. queryParamQ newURL authUrl = Some targetQ)
                             (authorizedGoogleUrls st)))))"

datatype nav_action =
    NoAction
  | UpdateTabUrl string
  | StopLoading
  | GoBackAlert string
  | Commit

text \<open>
  The last part of \<open>handleNavigationStateChange\<close>, after the Google access check:
  \<open>processUrl\<close> decides between going back and committing the navigation.
\<close>

definition commitNavigation ::
  "url_ctor \<Rightarrow> classifier_env \<Rightarrow> nav_state \<Rightarrow> string \<Rightarrow> nav_action \<times> nav_state" where
  "commitNavigation newURL env st navUrl =
     (let result = processUrl newURL env navUrl in
      if blocked result then
        (case redirect result of
           Some target \<Rightarrow>
             (UpdateTabUrl target, st\<lparr>activeTabUrl := Some target, previousUrlRef := None\<rparr>)
         | None \<Rightarrow>
             (GoBackAlert (case reason result of Some why \<Rightarrow> why
                                                 | None \<Rightarrow> ''This content is blocked''), st))
      else (Commit, st\<lparr>previousUrlRef := Some navUrl, activeTabUrl := Some navUrl\<rparr>))"

definition redirectToSafeSearch :: "nav_state \<Rightarrow> nav_action \<times> nav_state" where
  "redirectToSafeSearch st =
     (UpdateTabUrl SAFE_SEARCH_HOMEPAGE,
      st\<lparr>previousUrlRef := None, activeTabUrl := Some SAFE_SEARCH_HOMEPAGE,
         forceNavCounter := forceNavCounter st + 1\<rparr>)"

definition currentReferrer :: "nav_state \<Rightarrow> string option" where
  \<comment> \<open>\<open>activeTab?.url || previousUrlRef.current\<close>\<close>
  "currentReferrer st = (if truthy (activeTabUrl st) then activeTabUrl st else previousUrlRef st)"

definition referrerIs :: "nav_state \<Rightarrow> (string \<Rightarrow> bool) \<Rightarrow> bool" where
  \<comment> \<open>\<open>currentReferrer && p(currentReferrer)\<close>\<close>
  "referrerIs st p = (case currentReferrer st of None \<Rightarrow> False | Some r \<Rightarrow> r \<noteq> [] \<and> p r)"

definition isFromGoogleAuth :: "url_ctor \<Rightarrow> nav_state \<Rightarrow> bool" where
  "isFromGoogleAuth newURL st = referrerIs st (isGoogleAuthUrl newURL)"

definition handleNavigationStateChange ::
  "url_ctor \<Rightarrow> classifier_env \<Rightarrow> nav_state \<Rightarrow> string \<Rightarrow> nav_action \<times> nav_state" where
  "handleNavigationStateChange newURL env st navUrl =
     (if \<not> truthy (activeTabId st) then (NoAction, st)
      else if isGoogleSearchDomain newURL navUrl \<and> \<not> isGoogleAuthUrl newURL navUrl \<and>
              \<not> isFromGoogleAuth newURL st
      then
        (let isFromGoogleDomain = referrerIs st (\<lambda>r. includesStr r ''google.com'');
             alreadyOnGoogle = referrerIs st (\<lambda>r. isGoogleSearchDomain newURL r \<or>
                                                  isGoogleAuthUrl newURL r \<or>
                                                  isFromGoogleDomain);
             isHomepage = isGoogleHomePage newURL navUrl;
             isAuthorized = checkGoogleUrlAuthorization newURL st navUrl;
             enforcedUrl = enforceGoogleSafeSearch newURL navUrl
         in if isHomepage then redirectToSafeSearch st
            else if isBlockedGoogleSection newURL env navUrl then (StopLoading, st)
            else if enforcedUrl \<noteq> navUrl
            then (UpdateTabUrl enforcedUrl, st\<lparr>activeTabUrl := Some enforcedUrl\<rparr>)
            else if alreadyOnGoogle \<or> isReferrerFromSafeSearch newURL (currentReferrer st) \<or>
                    isAuthorized
            then commitNavigation newURL env
                   (st\<lparr>authorizedGoogleUrls :=
                         (if navUrl \<in> set (authorizedGoogleUrls st)
                          then authorizedGoogleUrls st
                          else authorizedGoogleUrls st @ [navUrl])\<rparr>)
                   navUrl
            else redirectToSafeSearch st)
      else commitNavigation newURL env st navUrl)"

section \<open>Stop-then-reload sequencing (BrowserScreen.tsx)\<close>

record load_state =
  isLoadingRef :: bool
  ytPendingStopThenReloadRef :: bool

datatype webview_event =
    LoadStart
  | LoadEnd
  | MsgYtStopThenReload
  | MsgReload
  | PermissionReload

datatype webview_call = CallStopLoading | CallReload

text \<open>
  One handler run: the calls it makes on \<open>webViewRef.current\<close>, each with the value
  \<open>isLoadingRef.current\<close> has when the call is made, and the state it leaves.
  \<open>LoadStart\<close> and \<open>LoadEnd\<close> are \<open>handleLoadStart\<close> and \<open>handleLoadEnd\<close>, the two
  messages are the branches \<open>ytStopThenReload\<close> and \<open>reload\<close> of \<open>handleWebViewMessage\<close>,
  and \<open>PermissionReload\<close> is \<open>reloadWithPermissionDetection\<close>, the Reload button of the
  "Permissions Changed" prompt.
\<close>

fun handleEvent :: "load_state \<Rightarrow> webview_event \<Rightarrow> (webview_call \<times> bool) list \<times> load_state" where
  "handleEvent st LoadStart = ([], st\<lparr>isLoadingRef := True\<rparr>)"
| "handleEvent st LoadEnd =
     (if ytPendingStopThenReloadRef st
      then ([(CallReload, False)],
            st\<lparr>isLoadingRef := False, ytPendingStopThenReloadRef := False\<rparr>)
      else ([], st\<lparr>isLoadingRef := False\<rparr>))"
| "handleEvent st MsgYtStopThenReload =
     (if \<not> isLoadingRef st
      then ([(CallStopLoading, isLoadingRef st), (CallReload, isLoadingRef st)],
            st\<lparr>ytPendingStopThenReloadRef := False\<rparr>)
      else ([(CallStopLoading, isLoadingRef st)], st\<lparr>ytPendingStopThenReloadRef := True\<rparr>))"
| "handleEvent st MsgReload = ([(CallReload, isLoadingRef st)], st)"
| "handleEvent st PermissionReload = ([(CallReload, isLoadingRef st)], st)"

text \<open>
  A run of the handlers from a state: the trace lists, in order, the event handled and
  the calls its handler made.
\<close>

fun runEvents ::
  "load_state \<Rightarrow> webview_event list \<Rightarrow> (webview_event \<times> webview_call \<times> bool) list \<times> load_state" where
  "runEvents st [] = ([], st)"
| "runEvents st (e # es) =
     (let r = handleEvent st e;
          rest = runEvents (snd r) es
      in (map (\<lambda>c. (e, c)) (fst r) @ fst rest, snd rest))"

definition initialLoadState :: load_state where
  "initialLoadState = \<lparr>isLoadingRef = False, ytPendingStopThenReloadRef = False\<rparr>"


section \<open>Filter-list parser (Blocklist/parser.ts)\<close>

fun splitOn :: "char \<Rightarrow> string \<Rightarrow> string list" where
  \<comment> \<open>\<open>s.split(c)\<close>: the empty string splits into one empty piece\<close>
  "splitOn sep [] = [[]]"
| "splitOn sep (c # cs) =
     (if c = sep then [] # splitOn sep cs
      else (case splitOn sep cs of
              [] \<Rightarrow> [[c]]
            | w # ws \<Rightarrow> (c # w) # ws))"

fun joinWith :: "string \<Rightarrow> string list \<Rightarrow> string" where
  "joinWith sep [] = []"
| "joinWith sep [x] = x"
| "joinWith sep (x # y # ys) = x @ sep @ joinWith sep (y # ys)"

definition newline :: char where
  "newline = char_of (10 :: nat)"

definition carriageReturn :: char where
  "carriageReturn = char_of (13 :: nat)"

definition addDomain :: "string \<Rightarrow> string list \<Rightarrow> string list" where
  \<comment> \<open>\<open>domains.add(d)\<close> on a \<open>Set\<close>, kept in insertion order\<close>
  "addDomain d domains = (if d \<in> set domains then domains else domains @ [d])"

definition isLetter :: "char \<Rightarrow> bool" where
  "isLetter c = (isLowerLetter c \<or> isUpperLetter c)"

definition isDomainChar :: "char \<Rightarrow> bool" where
  \<comment> \<open>the class \<open>[-a-zA-Z0-9._]\<close>\<close>
  "isDomainChar c = (isAlnum c \<or> c = CHR ''-'' \<or> c = CHR ''.'' \<or> c = CHR ''_'')"

definition isHostLabelRun :: "string \<Rightarrow> bool" where
  \<comment> \<open>\<open>[a-zA-Z0-9][-a-zA-Z0-9._]*[a-zA-Z0-9]\<close> on the whole of a string\<close>
  "isHostLabelRun g =
     (length g \<ge> 2 \<and> list_all isDomainChar g \<and> isAlnum (hd g) \<and> isAlnum (last g))"

definition matchDomainBlock :: "string \<Rightarrow> string option" where
  \<comment> \<open>group 1 of \<open>/^\|\|([a-zA-Z0-9][-a-zA-Z0-9._]*[a-zA-Z0-9])[\^/$]/\<close>\<close>
  "matchDomainBlock line =
     (if startsWith line ''||'' then
        (let g = takeWhile isDomainChar (drop 2 line);
             after = dropWhile isDomainChar (drop 2 line)
         in if isHostLabelRun g \<and>
               (case after of [] \<Rightarrow> False
                            | c # _ \<Rightarrow> c = CHR ''^'' \<or> c = CHR ''/'' \<or> c = CHR ''$'')
            then Some g else None)
      else None)"

definition isSimpleDomain :: "string \<Rightarrow> bool" where
  \<comment> \<open>\<open>/^[a-zA-Z0-9][-a-zA-Z0-9._]*\.[a-zA-Z]{2,}$/\<close> on the whole of a string\<close>
  "isSimpleDomain s =
     (let tld = takeWhile isLetter (rev s);
          pre = dropWhile isLetter (rev s)
      in length tld \<ge> 2 \<and> length pre \<ge> 2 \<and> hd pre = CHR ''.'' \<and>
         list_all isDomainChar s \<and> isAlnum (hd s))"

definition matchSimpleDomain :: "string \<Rightarrow> string option" where
  \<comment> \<open>group 1 of \<open>/^\|\|([a-zA-Z0-9][-a-zA-Z0-9._]*\.[a-zA-Z]{2,})$/\<close>\<close>
  "matchSimpleDomain line =
     (if startsWith line ''||'' \<and> isSimpleDomain (drop 2 line) then Some (drop 2 line) else None)"

definition matchDomainWithOptions :: "string \<Rightarrow> string option" where
  \<comment> \<open>group 1 of \<open>/^\|\|([a-zA-Z0-9][-a-zA-Z0-9._]*[a-zA-Z0-9])\$/\<close>\<close>
  "matchDomainWithOptions line =
     (if startsWith line ''||'' then
        (let g = takeWhile isDomainChar (drop 2 line);
             after = dropWhile isDomainChar (drop 2 line)
         in if isHostLabelRun g \<and> (case after of [] \<Rightarrow> False | c # _ \<Rightarrow> c = CHR ''$'')
            then Some g else None)
      else None)"

definition easyListLine :: "string list \<Rightarrow> string \<Rightarrow> string list" where
  "easyListLine domains rawLine =
     (let line = trim rawLine in
      if line = [] then domains
      else if startsWith line ''!'' \<or> startsWith line ''['' then domains
      else if startsWith line ''@@'' then domains
      else if includesStr line ''##'' \<or> includesStr line ''#@#'' \<or> includesStr line ''#?#''
      then domains
      else if startsWith line ''/'' \<and> endsWith line ''/'' then domains
      else
        (case matchDomainBlock line of
           Some g \<Rightarrow>
             (let domain = toLowerCase g in
              if \<not> includesStr domain ''*'' \<and> includesStr domain ''.''
              then addDomain domain domains else domains)
         | None \<Rightarrow>
             (case matchSimpleDomain line of
                Some g \<Rightarrow>
                  (let domain = toLowerCase g in
                   if \<not> includesStr domain ''*'' then addDomain domain domains else domains)
              | None \<Rightarrow>
                  (case matchDomainWithOptions line of
                     Some g \<Rightarrow>
                       (let domain = toLowerCase g in
                        if \<not> includesStr domain ''*'' \<and> includesStr domain ''.''
                        then addDomain domain domains else domains)
                   | None \<Rightarrow> domains))))"

definition parseEasyListFormat :: "string \<Rightarrow> string list" where
  "parseEasyListFormat content = foldl easyListLine [] (splitOn newline content)"

definition parseAdGuardFormat :: "string \<Rightarrow> string list" where
  "parseAdGuardFormat content = parseEasyListFormat content"

definition domainsLine :: "string list \<Rightarrow> string \<Rightarrow> string list" where
  "domainsLine domains rawLine =
     (let line = trim rawLine in
      if line = [] \<or> startsWith line ''#'' \<or> startsWith line ''!'' then domains
      else if startsWith line ''||'' \<or> includesStr line ''##'' \<or> startsWith line ''@@''
      then domains
      else if isSimpleDomain line then addDomain (toLowerCase line) domains
      else domains)"

definition parseDomainsFormat :: "string \<Rightarrow> string list" where
  "parseDomainsFormat content = foldl domainsLine [] (splitOn newline content)"

definition afterHostsAddress :: "string \<Rightarrow> string option" where
  \<comment> \<open>what follows a leading \<open>0.0.0.0\<close> or \<open>127.0.0.1\<close>\<close>
  "afterHostsAddress line =
     (if startsWith line ''0.0.0.0'' then Some (drop 7 line)
      else if startsWith line ''127.0.0.1'' then Some (drop 9 line)
      else None)"

definition hostsMatch :: "string \<Rightarrow> string option" where
  \<comment> \<open>group 1 of
     \<open>/^(?:0\.0\.0\.0|127\.0\.0\.1)\s+([a-zA-Z0-9][-a-zA-Z0-9._]*[a-zA-Z0-9])$/\<close>\<close>
  "hostsMatch line =
     (case afterHostsAddress line of
        None \<Rightarrow> None
      | Some rest \<Rightarrow>
          (let g = dropWhile isSpaceChar rest in
           if takeWhile isSpaceChar rest \<noteq> [] \<and> isHostLabelRun g then Some g else None))"

definition hostsLine :: "string list \<Rightarrow> string \<Rightarrow> string list" where
  "hostsLine domains rawLine =
     (let line = trim rawLine in
      if line = [] \<or> startsWith line ''#'' then domains
      else
        (case hostsMatch line of
           Some g \<Rightarrow>
             (let domain = toLowerCase g in
              if domain \<noteq> ''localhost'' \<and> domain \<noteq> ''localhost.localdomain'' \<and>
                 includesStr domain ''.''
              then addDomain domain domains else domains)
         | None \<Rightarrow> domains))"

definition parseHostsFormat :: "string \<Rightarrow> string list" where
  "parseHostsFormat content = foldl hostsLine [] (splitOn newline content)"

datatype blocklist_format = Easylist | Adguard | Domains | Hosts

fun lineStarts :: "string \<Rightarrow> string list" where
  \<comment> \<open>the rests of a string that begin right after a line terminator\<close>
  "lineStarts [] = []"
| "lineStarts (c # cs) =
     (if c = newline \<or> c = carriageReturn then cs # lineStarts cs else lineStarts cs)"

definition hostsLinePresent :: "string \<Rightarrow> bool" where
  \<comment> \<open>\<open>/^(?:0\.0\.0\.0|127\.0\.0\.1)\s+/m\<close> matches somewhere\<close>
  "hostsLinePresent s =
     list_ex (\<lambda>t. case afterHostsAddress t of
                    None \<Rightarrow> False
                  | Some rest \<Rightarrow> takeWhile isSpaceChar rest \<noteq> [])
       (s # lineStarts s)"

definition parseBlocklistContent :: "string \<Rightarrow> blocklist_format option \<Rightarrow> string list" where
  "parseBlocklistContent content formatHint =
     (case formatHint of
        Some Easylist \<Rightarrow> parseEasyListFormat content
      | Some Adguard \<Rightarrow> parseAdGuardFormat content
      | Some Hosts \<Rightarrow> parseHostsFormat content
      | Some Domains \<Rightarrow> parseDomainsFormat content
      | None \<Rightarrow>
          (let firstLines = joinWith [newline] (take 20 (splitOn newline content)) in
           if includesStr firstLines ''[Adblock'' \<or> includesStr firstLines ''! Title:''
           then parseEasyListFormat content
           else if hostsLinePresent firstLines then parseHostsFormat content
           else if includesStr firstLines ''||'' \<and> includesStr firstLines ''^''
           then parseEasyListFormat content
           else parseDomainsFormat content))"

text \<open>What the parser's output is shown to satisfy.\<close>

definition lowerDistinct :: "string list \<Rightarrow> bool" where
  "lowerDistinct ds = (distinct ds \<and> (\<forall>d\<in>set ds. toLowerCase d = d))"

text \<open>
  The line shapes the parsers look for, written out as the strings they are.  A host name
  is a letter or digit, any run of letters, digits, \<open>-\<close>, \<open>.\<close> and \<open>_\<close>, and a letter or
  digit.  A plain domain is a letter or digit, any such run, a dot and two or more
  letters.  A domain rule is \<open>||\<close>, a host name with a dot in it and one of \<open>^\<close>, \<open>/\<close>, \<open>$\<close>
  (whatever follows), or \<open>||\<close> and a plain domain alone, in a line without an
  element-hiding marker.  The listed domain rules are those the EasyList parser names
  as supported: \<open>||d^\<close>, \<open>||d/\<close>, \<open>||d$options\<close>, \<open>||d^$options\<close> and the bare \<open>||d\<close>; a rule
  with a path after the \<open>/\<close> is a domain rule that is not listed.  A hosts entry is one
  of the two addresses, white space and a host name with a dot in it other than the two
  localhost names.
\<close>

definition isHostName :: "string \<Rightarrow> bool" where
  "isHostName g =
     (\<exists>a m z. g = a # m @ [z] \<and> isAlnum a \<and> list_all isDomainChar m \<and> isAlnum z)"

definition isPlainDomain :: "string \<Rightarrow> bool" where
  "isPlainDomain s =
     (\<exists>a m t. s = a # m @ ''.'' @ t \<and> isAlnum a \<and> list_all isDomainChar m \<and>
               list_all isLetter t \<and> length t \<ge> 2)"

definition hasElementHiding :: "string \<Rightarrow> bool" where
  "hasElementHiding line =
     (includesStr line ''##'' \<or> includesStr line ''#@#'' \<or> includesStr line ''#?#'')"

definition isDomainRule :: "string \<Rightarrow> string \<Rightarrow> bool" where
  "isDomainRule line g =
     (isHostName g \<and> CHR ''.'' \<in> set g \<and> \<not> hasElementHiding line \<and>
      ((line = ''||'' @ g \<and> isPlainDomain g) \<or>
       (\<exists>c rest. line = ''||'' @ g @ c # rest \<and>
                  (c = CHR ''^'' \<or> c = CHR ''/'' \<or> c = CHR ''$''))))"

definition isListedDomainRule :: "string \<Rightarrow> string \<Rightarrow> bool" where
  "isListedDomainRule line g =
     (isHostName g \<and> CHR ''.'' \<in> set g \<and> \<not> hasElementHiding line \<and>
      (line = ''||'' @ g @ ''^'' \<or> line = ''||'' @ g @ ''/'' \<or>
       (\<exists>opts. line = ''||'' @ g @ ''$'' @ opts) \<or>
       (\<exists>opts. line = ''||'' @ g @ ''^$'' @ opts) \<or>
       (line = ''||'' @ g \<and> isPlainDomain g)))"

definition isHostsEntry :: "string \<Rightarrow> string \<Rightarrow> bool" where
  "isHostsEntry line g =
     (\<exists>addr ws. line = addr @ ws @ g \<and> (addr = ''0.0.0.0'' \<or> addr = ''127.0.0.1'') \<and>
                ws \<noteq> [] \<and> list_all isSpaceChar ws \<and> isHostName g \<and> CHR ''.'' \<in> set g \<and>
                toLowerCase g \<noteq> ''localhost'' \<and> toLowerCase g \<noteq> ''localhost.localdomain'')"

section \<open>Blocklist store (Blocklist/manager.ts)\<close>

record BlocklistEndpoint =
  endpointId :: string
  endpointName :: string
  endpointUrl :: string
  enabled :: bool
  format :: blocklist_format

text \<open>
  What \<open>fetch\<close> does for an endpoint: it rejects (network error, abort after 30 seconds),
  answers with a status that is not ok, or answers with a body.
\<close>

datatype fetch_outcome = FetchRejected | HttpNotOk | Body string

definition fetchBlocklist :: "(string \<Rightarrow> fetch_outcome) \<Rightarrow> BlocklistEndpoint \<Rightarrow> string list" where
  "fetchBlocklist fetch endpoint =
     (case fetch (endpointUrl endpoint) of
        Body content \<Rightarrow> parseBlocklistContent content (Some (format endpoint))
      | HttpNotOk \<Rightarrow> []
      | FetchRejected \<Rightarrow> [])"

text \<open>
  A JavaScript \<open>Map\<close> from names to domain lists, in insertion order; every key occurs
  once.  \<open>mapSet\<close> is \<open>Map.prototype.set\<close>.
\<close>

type_synonym domain_map = "(string \<times> string list) list"

definition mapSet :: "string \<Rightarrow> string list \<Rightarrow> domain_map \<Rightarrow> domain_map" where
  "mapSet k v m =
     (if k \<in> fst ` set m then map (\<lambda>e. if fst e = k then (k, v) else e) m
      else m @ [(k, v)])"

record blocklist_state =
  externalBlocklistCache :: domain_map
  localBlocklistCache :: domain_map
  lastUpdateTimestamp :: int
  isInitialized :: bool
  allBlockedDomainsCache :: "string list option"

definition UPDATE_INTERVAL_MS :: int where
  "UPDATE_INTERVAL_MS = 24 * 60 * 60 * 1000"

definition getEnabledEndpoints :: "BlocklistEndpoint list \<Rightarrow> BlocklistEndpoint list" where
  "getEnabledEndpoints endpoints = filter enabled endpoints"

definition cacheFetchResult :: "blocklist_state \<Rightarrow> string \<times> string list \<Rightarrow> blocklist_state" where
  \<comment> \<open>one round of the loop over the settled results, all of them fulfilled\<close>
  "cacheFetchResult st result =
     (if snd result \<noteq> []
      then st\<lparr>externalBlocklistCache := mapSet (fst result) (snd result) (externalBlocklistCache st)\<rparr>
      else st)"

text \<open>
  \<open>initializeBlocklists\<close>.  \<open>endpoints\<close> is the list \<open>getAllEndpoints()\<close> returns, \<open>fetch\<close>
  the network, \<open>loadedLocal\<close> what \<open>loadAllLocalBlocklists()\<close> resolves to and \<open>now\<close>
  the value of \<open>Date.now()\<close>.
\<close>

definition initializeBlocklists ::
  "BlocklistEndpoint list \<Rightarrow> (string \<Rightarrow> fetch_outcome) \<Rightarrow> domain_map \<Rightarrow> int \<Rightarrow>
   blocklist_state \<Rightarrow> blocklist_state" where
  "initializeBlocklists endpoints fetch loadedLocal now st =
     (if isInitialized st \<and> now - lastUpdateTimestamp st < UPDATE_INTERVAL_MS then st
      else
        (let st1 = st\<lparr>localBlocklistCache := loadedLocal\<rparr>;
             results = map (\<lambda>endpoint. (endpointId endpoint, fetchBlocklist fetch endpoint))
                         (getEnabledEndpoints endpoints);
             st2 = foldl cacheFetchResult st1 results
         in st2\<lparr>lastUpdateTimestamp := now, isInitialized := True,
                allBlockedDomainsCache := None\<rparr>))"

text \<open>
  \<open>getExternalAndLocalDomains\<close>; \<open>bundled\<close> is what \<open>parseAllLocalBlocklists()\<close> returns.
\<close>

definition getExternalAndLocalDomains :: "string list \<Rightarrow> blocklist_state \<Rightarrow> string list" where
  "getExternalAndLocalDomains bundled st =
     foldl (\<lambda>allDomains d. addDomain d allDomains) []
       (concat (map snd (externalBlocklistCache st)) @
        concat (map snd (localBlocklistCache st)) @ bundled)"

definition getAllBlockedDomainsSet ::
  "string list \<Rightarrow> blocklist_state \<Rightarrow> string list \<times> blocklist_state" where
  "getAllBlockedDomainsSet bundled st =
     (case allBlockedDomainsCache st of
        Some cached \<Rightarrow> (cached, st)
      | None \<Rightarrow>
          (let fresh = getExternalAndLocalDomains bundled st
           in (fresh, st\<lparr>allBlockedDomainsCache := Some fresh\<rparr>)))"


text \<open>
  Two names for parts of \<open>initializeBlocklists\<close>: the effect of one settled result on
  the cache of the external lists, and the list of results of the enabled endpoints.
\<close>

definition cacheStep :: "domain_map \<Rightarrow> string \<times> string list \<Rightarrow> domain_map" where
  "cacheStep m r = (if snd r \<noteq> [] then mapSet (fst r) (snd r) m else m)"

definition fetchResults ::
  "(string \<Rightarrow> fetch_outcome) \<Rightarrow> BlocklistEndpoint list \<Rightarrow> (string \<times> string list) list" where
  "fetchResults fetch endpoints =
     map (\<lambda>endpoint. (endpointId endpoint, fetchBlocklist fetch endpoint))
       (getEnabledEndpoints endpoints)"

section \<open>A reference URL constructor\<close>

text \<open>
  The examples are evaluated with \<open>referenceURL\<close> in the place of the platform's
  constructor.  It reads the URLs of the shape \<open>http(s)://host/path?query#fragment\<close> whose
  host name consists of letters, digits, \<open>-\<close> and \<open>.\<close> and whose path and query need
  neither escaping nor normalisation, and returns for them what the platform's
  constructor returns: the host name in lower case, \<open>/\<close> for an empty path, the query
  with its question mark, and the query's pairs.  It rejects every other string.
\<close>

definition isHostChar :: "char \<Rightarrow> bool" where
  "isHostChar c = (isAlnum c \<or> c = CHR ''-'' \<or> c = CHR ''.'')"

definition queryPairs :: "string \<Rightarrow> (string \<times> string) list" where
  "queryPairs q =
     map (\<lambda>p. (takeWhile (\<lambda>c. c \<noteq> CHR ''='') p, drop 1 (dropWhile (\<lambda>c. c \<noteq> CHR ''='') p)))
       (filter (\<lambda>p. p \<noteq> []) (splitOn (CHR ''&'') q))"

fun setPair :: "string \<Rightarrow> string \<Rightarrow> (string \<times> string) list \<Rightarrow> (string \<times> string) list" where
  "setPair k v [] = [(k, v)]"
| "setPair k v (p # ps) =
     (if fst p = k then (k, v) # filter (\<lambda>e. fst e \<noteq> k) ps else p # setPair k v ps)"

definition serializeQuery :: "(string \<times> string) list \<Rightarrow> string" where
  "serializeQuery ps = joinWith ''&'' (map (\<lambda>p. fst p @ ''='' @ snd p) ps)"

definition referenceURL :: url_ctor where
  "referenceURL s =
     (let scheme = (if startsWith s ''https://'' then ''https://''
                    else if startsWith s ''http://'' then ''http://'' else []);
          rest = drop (length scheme) s;
          isDelimiter = (\<lambda>c. c = CHR ''/'' \<or> c = CHR ''?'' \<or> c = CHR ''#'');
          authority = takeWhile (\<lambda>c. \<not> isDelimiter c) rest;
          tail = dropWhile (\<lambda>c. \<not> isDelimiter c) rest;
          beforeFragment = takeWhile (\<lambda>c. c \<noteq> CHR ''#'') tail;
          fragment = dropWhile (\<lambda>c. c \<noteq> CHR ''#'') tail;
          rawPath = takeWhile (\<lambda>c. c \<noteq> CHR ''?'') beforeFragment;
          path = (if rawPath = [] then ''/'' else rawPath);
          query = drop 1 (dropWhile (\<lambda>c. c \<noteq> CHR ''?'') beforeFragment);
          host = toLowerCase authority
      in if scheme = [] \<or> authority = [] \<or> \<not> list_all isHostChar authority then None
         else Some \<lparr>hostname = host,
                    pathname = path,
                    search = (if query = [] then [] else ''?'' @ query),
                    searchParams = queryPairs query,
                    hrefWithParam = (\<lambda>k v. scheme @ host @ path @ ''?'' @
                                            serializeQuery (setPair k v (queryPairs query)) @
                                            fragment)\<rparr>)"


section \<open>Example inputs\<close>

definition envWithBlocklist :: "string list \<Rightarrow> classifier_env" where
  "envWithBlocklist domains =
     \<lparr>getAllBlockedDomains = domains, NSFW_REDDIT_PATTERNS = [],
      WILDCARD_REDDIT_KEYWORDS = [], envGoogleImagesBlocking = None\<rparr>"

definition envWithImagesBlocking :: "string option \<Rightarrow> classifier_env" where
  "envWithImagesBlocking v =
     \<lparr>getAllBlockedDomains = [], NSFW_REDDIT_PATTERNS = [],
      WILDCARD_REDDIT_KEYWORDS = [], envGoogleImagesBlocking = v\<rparr>"

definition tabOn :: "string \<Rightarrow> nav_state" where
  "tabOn pageUrl =
     \<lparr>activeTabId = Some ''tab-1'', activeTabUrl = Some pageUrl, previousUrlRef = None,
      authorizedGoogleUrls = [], forceNavCounter = 0\<rparr>"

definition sampleList :: string where
  "sampleList = ''! Title: sample'' @ [newline] @ ''||Ads.Example.COM^'' @ [newline] @
                ''||ads.example.com^$third-party'' @ [newline] @ ''||tracker.net'' @ [newline] @
                ''not a rule'' @ [newline] @ ''@@||good.example.org^''"

definition initialBlocklistState :: blocklist_state where
  "initialBlocklistState =
     \<lparr>externalBlocklistCache = [], localBlocklistCache = [], lastUpdateTimestamp = 0,
      isInitialized = False, allBlockedDomainsCache = None\<rparr>"

definition sampleEndpoint :: "string \<Rightarrow> blocklist_format \<Rightarrow> BlocklistEndpoint" where
  "sampleEndpoint name fmt =
     \<lparr>endpointId = name, endpointName = name,
      endpointUrl = ''https://lists.example.org/'' @ name, enabled = True, format = fmt\<rparr>"

definition sampleFetch :: "string \<Rightarrow> fetch_outcome" where
  "sampleFetch u =
     (if u = ''https://lists.example.org/ads'' then Body ''||ads.example.com^''
      else if u = ''https://lists.example.org/hosts'' then Body ''0.0.0.0 tracker.example.net''
      else FetchRejected)"

definition micOnlyState :: perm_state where
  "micOnlyState = \<lparr>allowedSites = (\<lambda>t. if t = Mic then {''example.com''} else {}),
                    persisted = (\<lambda>_. None)\<rparr>"

section \<open>Properties of the permission gatekeeper\<close>

lemma startsWith_iff: "startsWith s p = (\<exists>t. s = p @ t)"
  by (induction s p rule: startsWith.induct) auto

lemma normalizeHostname_www: "normalizeHostname (''www.'' @ h) = h"
  by (simp add: normalizeHostname_def)

lemma normalizeHostname_plain: "\<not> startsWith h ''www.'' \<Longrightarrow> normalizeHostname h = h"
  by (simp add: normalizeHostname_def)

lemma normalizeHostname_sub:
  assumes "label \<noteq> ''www''"
  shows "normalizeHostname (label @ ''.'' @ d) \<noteq> d"
proof
  assume eq: "normalizeHostname (label @ ''.'' @ d) = d"
  let ?h = "label @ ''.'' @ d"
  have len: "length ?h = length label + 1 + length d" by simp
  show False
  proof (cases "startsWith ?h ''www.'' \<and> ?h \<noteq> ''unknown''")
    case True
    then obtain t where t: "?h = ''www.'' @ t" by (auto simp: startsWith_iff)
    with eq True have "t = d" by (simp add: normalizeHostname_def)
    with t have e: "label @ ''.'' @ d = ''www.'' @ d" by simp
    then have "label @ ''.'' = ''www.''" by simp
    then have "label = ''www''" by simp
    with assms show False by simp
  next
    case False
    then have "normalizeHostname ?h = ?h" by (auto simp: normalizeHostname_def)
    with eq have "length ?h = length d" by simp
    then show False by simp
  qed
qed

lemma grant_then_restart:
  "isCapabilityAllowed (restartApp (askToRemember c g st)) c h' =
     (normalizeHostname h' = normalizeHostname g \<or> isCapabilityAllowed (restartApp st) c h')"
  by (cases "persisted st c")
     (auto simp: isCapabilityAllowed_def restartApp_def loadPersistedPermissions_def
        askToRemember_def Let_def)

text \<open>
  C10.  A capability lookup is the membership of the normalised host name in the
  capability's set.  \<open>www.h\<close> is looked up as \<open>h\<close>, and so is \<open>h\<close> itself when it carries
  no \<open>www.\<close> prefix of its own (one prefix is stripped, not more).  Granting a host name
  changes the answer for no host name that normalises to another one, and with a
  grant for \<open>d\<close> alone no \<open>label.d\<close> is allowed unless the label is \<open>www\<close>: there is no
  matching of parent domains.  The same for a grant as \<open>askToRemember\<close> persists it: once
  loaded, it allows the host names with the normal form of the granted one, and changes
  the answer for no other.
\<close>

theorem capability_lookup_exact_host:
  "isCapabilityAllowed st c h = (normalizeHostname h \<in> allowedSites st c) \<and>
   isCapabilityAllowed st c (''www.'' @ h) = (h \<in> allowedSites st c) \<and>
   (\<not> startsWith h ''www.'' \<longrightarrow>
      isCapabilityAllowed st c h = (h \<in> allowedSites st c) \<and>
      isCapabilityAllowed st c (''www.'' @ h) = isCapabilityAllowed st c h) \<and>
   (normalizeHostname h' \<noteq> g \<longrightarrow>
      isCapabilityAllowed (st\<lparr>allowedSites := (allowedSites st)(c := insert g (allowedSites st c))\<rparr>) c h'
        = isCapabilityAllowed st c h') \<and>
   (label \<noteq> ''www'' \<longrightarrow>
      \<not> isCapabilityAllowed (st\<lparr>allowedSites := (allowedSites st)(c := {d})\<rparr>) c (label @ ''.'' @ d)) \<and>
   isCapabilityAllowed (restartApp (askToRemember c g st)) c h' =
     (normalizeHostname h' = normalizeHostname g \<or> isCapabilityAllowed (restartApp st) c h')"
proof (intro conjI impI)
  show "isCapabilityAllowed (restartApp (askToRemember c g st)) c h' =
     (normalizeHostname h' = normalizeHostname g \<or> isCapabilityAllowed (restartApp st) c h')"
    by (rule grant_then_restart)
  show "isCapabilityAllowed st c h = (normalizeHostname h \<in> allowedSites st c)"
    by (simp add: isCapabilityAllowed_def)
  show www: "isCapabilityAllowed st c (''www.'' @ h) = (h \<in> allowedSites st c)"
    unfolding isCapabilityAllowed_def normalizeHostname_www ..
  {
    assume plain: "\<not> startsWith h ''www.''"
    then show bare: "isCapabilityAllowed st c h = (h \<in> allowedSites st c)"
      by (simp add: isCapabilityAllowed_def normalizeHostname_plain)
    from www bare
    show "isCapabilityAllowed st c (''www.'' @ h) = isCapabilityAllowed st c h"
      by (rule trans[OF _ sym])
  }
  {
    assume "normalizeHostname h' \<noteq> g"
    then show "isCapabilityAllowed
        (st\<lparr>allowedSites := (allowedSites st)(c := insert g (allowedSites st c))\<rparr>) c h'
      = isCapabilityAllowed st c h'"
      by (simp add: isCapabilityAllowed_def)
  }
  {
    assume "label \<noteq> ''www''"
    then have "normalizeHostname (label @ ''.'' @ d) \<noteq> d" by (rule normalizeHostname_sub)
    then show "\<not> isCapabilityAllowed (st\<lparr>allowedSites := (allowedSites st)(c := {d})\<rparr>) c
                 (label @ ''.'' @ d)"
      unfolding isCapabilityAllowed_def by simp
  }
qed

text \<open>
  The same at \<open>example.com\<close>: a grant for it serves \<open>www.example.com\<close> and not
  \<open>sub.example.com\<close>.
\<close>

theorem capability_lookup_exact_host_witness:
  "\<not> startsWith ''example.com'' ''www.'' \<and>
   normalizeHostname ''sub.example.com'' \<noteq> ''example.com'' \<and>
   ''sub'' \<noteq> ''www'' \<and>
   isCapabilityAllowed (initialPermState\<lparr>allowedSites := (allowedSites initialPermState)(Gps := {''example.com''})\<rparr>) Gps ''www.example.com'' \<and>
   isCapabilityAllowed (initialPermState\<lparr>allowedSites := (allowedSites initialPermState)(Gps := {''example.com''})\<rparr>) Gps ''example.com'' \<and>
   \<not> isCapabilityAllowed (initialPermState\<lparr>allowedSites := (allowedSites initialPermState)(Gps := {''example.com''})\<rparr>) Gps ''sub.example.com'' \<and>
   \<not> isCapabilityAllowed (initialPermState\<lparr>allowedSites := (allowedSites initialPermState)(Gps := insert ''example.com'' (allowedSites initialPermState Gps))\<rparr>) Gps ''sub.example.com''"
  using capability_lookup_exact_host[of "initialPermState\<lparr>allowedSites := (allowedSites initialPermState)(Gps := {''example.com''})\<rparr>" Gps "''example.com''" "''sub.example.com''" "''example.com''" "''sub''" "''example.com''"]
   capability_lookup_exact_host[of "initialPermState" Gps "''example.com''" "''sub.example.com''" "''example.com''" "''sub''" "''example.com''"]
  by (simp add: normalizeHostname_def initialPermState_def isCapabilityAllowed_def)

lemma resourceStep_acc:
  "resourceStep m g n (d, acc) r =
     (d \<or> fst (resourceStep m g n (False, []) r),
      if fst (resourceStep m g n (False, []) r) then acc else acc @ [r])"
  by (simp add: resourceStep_def)

lemma foldl_resourceStep:
  "foldl (resourceStep m g n) (d, acc) rs =
     (d \<or> (\<exists>r\<in>set rs. fst (resourceStep m g n (False, []) r)),
      acc @ filter (\<lambda>r. \<not> fst (resourceStep m g n (False, []) r)) rs)"
proof (induction rs arbitrary: d acc)
  case Nil
  show ?case by simp
next
  case (Cons r rs)
  show ?case
    by (subst foldl_Cons, subst resourceStep_acc, subst Cons.IH) auto
qed

lemma resourceStep_deniedByPolicy:
  "fst (resourceStep (h \<in> allowedSites st Mic) (h \<in> allowedSites st Gps)
          (h \<in> allowedSites st Notifications) (False, []) r) = deniedByPolicy st h r"
  by (simp add: resourceStep_def deniedByPolicy_def capabilityOf_def)

lemma onPermissionRequest_decision:
  "onPermissionRequest newURL True st requestUrl resources =
     Some (if \<exists>r\<in>set resources. deniedByPolicy st (requestHost newURL requestUrl) r
           then Deny else Grant resources)"
proof -
  let ?h = "requestHost newURL requestUrl"
  have "onPermissionRequest newURL True st requestUrl resources =
          (let r = foldl (resourceStep (?h \<in> allowedSites st Mic) (?h \<in> allowedSites st Gps)
                      (?h \<in> allowedSites st Notifications)) (False, []) resources
           in Some (if fst r then Deny else Grant (snd r)))"
    by (simp add: onPermissionRequest_def requestHost_def Let_def)
  also have "\<dots> = Some (if \<exists>r\<in>set resources. deniedByPolicy st ?h r then Deny else Grant resources)"
    by (simp add: foldl_resourceStep resourceStep_deniedByPolicy Let_def)
  finally show ?thesis .
qed

lemma deniedByPolicy_unknown: "capabilityOf r = Unknown \<Longrightarrow> deniedByPolicy st h r"
  by (simp add: deniedByPolicy_def)

lemma deniedByPolicy_protected: "capabilityOf r = ProtectedMedia \<Longrightarrow> \<not> deniedByPolicy st h r"
  by (simp add: deniedByPolicy_def)

lemma deniedByPolicy_no_record:
  "h \<notin> allowedSites st Mic \<Longrightarrow> h \<notin> allowedSites st Gps \<Longrightarrow> h \<notin> allowedSites st Notifications \<Longrightarrow>
   capabilityOf r = MicCamera \<or> capabilityOf r = Geolocation \<or> capabilityOf r = Notification \<Longrightarrow>
   deniedByPolicy st h r"
  by (auto simp: deniedByPolicy_def)

text \<open>
  C2.  For the active tab, a native permission request is denied as a whole when the
  policy denies one of the requested capabilities, and is granted with exactly the
  requested list otherwise.  Protected media is granted whatever the policy says, and
  taking it out of a batch does not change whether the batch is denied.  An unknown
  identifier denies the batch.  For a host name in none of the sets, a batch with a
  camera/microphone, geolocation or notification capability is denied.
\<close>

theorem permission_batch_all_or_nothing:
  "onPermissionRequest newURL True st requestUrl resources =
     Some (if \<exists>r\<in>set resources. deniedByPolicy st (requestHost newURL requestUrl) r
           then Deny else Grant resources) \<and>
   ((\<forall>r\<in>set resources. capabilityOf r = ProtectedMedia) \<longrightarrow>
      onPermissionRequest newURL True st requestUrl resources = Some (Grant resources)) \<and>
   ((onPermissionRequest newURL True st requestUrl resources = Some Deny) =
    (onPermissionRequest newURL True st requestUrl
       (filter (\<lambda>r. capabilityOf r \<noteq> ProtectedMedia) resources) = Some Deny)) \<and>
   ((\<exists>r\<in>set resources. capabilityOf r = Unknown) \<longrightarrow>
      onPermissionRequest newURL True st requestUrl resources = Some Deny) \<and>
   (requestHost newURL requestUrl \<notin> allowedSites st Mic \<and>
    requestHost newURL requestUrl \<notin> allowedSites st Gps \<and>
    requestHost newURL requestUrl \<notin> allowedSites st Notifications \<and>
    (\<exists>r\<in>set resources. capabilityOf r = MicCamera \<or> capabilityOf r = Geolocation \<or>
                         capabilityOf r = Notification) \<longrightarrow>
      onPermissionRequest newURL True st requestUrl resources = Some Deny)"
proof (intro conjI impI)
  let ?h = "requestHost newURL requestUrl"
  show "onPermissionRequest newURL True st requestUrl resources =
     Some (if \<exists>r\<in>set resources. deniedByPolicy st ?h r then Deny else Grant resources)"
    by (rule onPermissionRequest_decision)
  {
    assume "\<forall>r\<in>set resources. capabilityOf r = ProtectedMedia"
    then have "\<not> (\<exists>r\<in>set resources. deniedByPolicy st ?h r)"
      by (blast dest: deniedByPolicy_protected)
    then show "onPermissionRequest newURL True st requestUrl resources = Some (Grant resources)"
      by (simp add: onPermissionRequest_decision)
  }
  show "(onPermissionRequest newURL True st requestUrl resources = Some Deny) =
    (onPermissionRequest newURL True st requestUrl
       (filter (\<lambda>r. capabilityOf r \<noteq> ProtectedMedia) resources) = Some Deny)"
  proof -
    have "(\<exists>r\<in>set resources. deniedByPolicy st ?h r) =
          (\<exists>r\<in>set (filter (\<lambda>r. capabilityOf r \<noteq> ProtectedMedia) resources).
              deniedByPolicy st ?h r)"
      by (auto dest: deniedByPolicy_protected)
    then show ?thesis by (simp add: onPermissionRequest_decision)
  qed
  {
    assume "\<exists>r\<in>set resources. capabilityOf r = Unknown"
    then have "\<exists>r\<in>set resources. deniedByPolicy st ?h r"
      by (blast intro: deniedByPolicy_unknown)
    then show "onPermissionRequest newURL True st requestUrl resources = Some Deny"
      by (simp add: onPermissionRequest_decision)
  }
  {
    assume "?h \<notin> allowedSites st Mic \<and> ?h \<notin> allowedSites st Gps \<and>
            ?h \<notin> allowedSites st Notifications \<and>
            (\<exists>r\<in>set resources. capabilityOf r = MicCamera \<or> capabilityOf r = Geolocation \<or>
                         capabilityOf r = Notification)"
    then have "\<exists>r\<in>set resources. deniedByPolicy st ?h r"
      by (blast intro: deniedByPolicy_no_record)
    then show "onPermissionRequest newURL True st requestUrl resources = Some Deny"
      by (simp add: onPermissionRequest_decision)
  }
qed

text \<open>
  The specification's example, and one batch for each hypothesis: with the microphone
  allowed for \<open>example.com\<close> and nothing else, a request for microphone and
  geolocation is denied, protected media alone is granted, an unknown identifier is
  denied, and another host is denied the microphone.
\<close>

theorem permission_batch_all_or_nothing_witness:
  "capabilityOf ''protected_media_id'' = ProtectedMedia \<and>
   onPermissionRequest referenceURL True micOnlyState ''https://www.example.com/call''
     [''protected_media_id''] = Some (Grant [''protected_media_id'']) \<and>
   (\<exists>r\<in>set [''microphone'', ''geolocation'']. deniedByPolicy micOnlyState
        (requestHost referenceURL ''https://www.example.com/call'') r) \<and>
   onPermissionRequest referenceURL True micOnlyState ''https://www.example.com/call''
     [''microphone'', ''geolocation''] = Some Deny \<and>
   onPermissionRequest referenceURL True micOnlyState ''https://www.example.com/call''
     [''microphone''] = Some (Grant [''microphone'']) \<and>
   (\<exists>r\<in>set [''microphone'', ''usb'']. capabilityOf r = Unknown) \<and>
   onPermissionRequest referenceURL True micOnlyState ''https://www.example.com/call''
     [''microphone'', ''usb''] = Some Deny \<and>
   requestHost referenceURL ''https://other.org/'' \<notin> allowedSites micOnlyState Mic \<and>
   requestHost referenceURL ''https://other.org/'' \<notin> allowedSites micOnlyState Gps \<and>
   requestHost referenceURL ''https://other.org/'' \<notin> allowedSites micOnlyState Notifications \<and>
   onPermissionRequest referenceURL True micOnlyState ''https://other.org/''
     [''microphone''] = Some Deny"
proof -
  have h1: "requestHost referenceURL ''https://www.example.com/call'' = ''example.com''"
    by code_simp
  have h2: "requestHost referenceURL ''https://other.org/'' = ''other.org''"
    by code_simp
  show ?thesis
    using permission_batch_all_or_nothing
            [of referenceURL micOnlyState "''https://www.example.com/call''"
                "[''protected_media_id'']"]
          permission_batch_all_or_nothing
            [of referenceURL micOnlyState "''https://www.example.com/call''"
                "[''microphone'', ''geolocation'']"]
          permission_batch_all_or_nothing
            [of referenceURL micOnlyState "''https://www.example.com/call''"
                "[''microphone'']"]
          permission_batch_all_or_nothing
            [of referenceURL micOnlyState "''https://www.example.com/call''"
                "[''microphone'', ''usb'']"]
          permission_batch_all_or_nothing
            [of referenceURL micOnlyState "''https://other.org/''" "[''microphone'']"]
    by (simp add: h1 h2 micOnlyState_def deniedByPolicy_def capabilityOf_def)
qed

text \<open>
  C8.  The host name \<open>www.example.com\<close> is enabled for geolocation and disabled again.
  \<open>askToRemember\<close> has stored the normalised \<open>example.com\<close>; \<open>removePersistedPermission\<close>
  filters on the host name as given and removes nothing, so the stored set still holds
  \<open>example.com\<close> and, once the app has started again, the capability is allowed.
\<close>

theorem toggle_off_keeps_normalized_host:
  "persisted (togglePermission Gps ''www.example.com''
               (togglePermission Gps ''www.example.com'' initialPermState)) Gps
     = Some [''example.com''] \<and>
   isCapabilityAllowed
     (restartApp (togglePermission Gps ''www.example.com''
                    (togglePermission Gps ''www.example.com'' initialPermState)))
     Gps ''www.example.com''"
  by (simp add: togglePermission_def enablePermission_def disablePermission_def
      askToRemember_def removePersistedPermission_def initialPermState_def
      normalizeHostname_def isCapabilityAllowed_def restartApp_def loadPersistedPermissions_def)

text \<open>
  For a host name that is its own normal form the two steps do leave the capability
  off, in the session and after a restart.
\<close>

lemma enable_then_disable_plain_host:
  assumes "normalizeHostname h = h" and "h \<notin> allowedSites st c"
  shows "h \<notin> set (case persisted (togglePermission c h (togglePermission c h st)) c of
                      None \<Rightarrow> [] | Some l \<Rightarrow> l) \<and>
         \<not> isCapabilityAllowed (togglePermission c h (togglePermission c h st)) c h \<and>
         \<not> isCapabilityAllowed (restartApp (togglePermission c h (togglePermission c h st))) c h"
  using assms
  by (auto simp: togglePermission_def enablePermission_def disablePermission_def
      askToRemember_def removePersistedPermission_def Let_def
      isCapabilityAllowed_def restartApp_def loadPersistedPermissions_def
      split: option.splits)

section \<open>Properties of the stop-then-reload sequencing\<close>

lemma handleEvent_reload_not_loading:
  "(CallReload, loading) \<in> set (fst (handleEvent st e)) \<Longrightarrow>
   e = MsgYtStopThenReload \<or> e = LoadEnd \<Longrightarrow> \<not> loading"
  by (cases e) (auto split: if_splits)

lemma runEvents_reload_not_loading:
  "(e, CallReload, loading) \<in> set (fst (runEvents st events)) \<Longrightarrow>
   e = MsgYtStopThenReload \<or> e = LoadEnd \<Longrightarrow> \<not> loading"
proof (induction events arbitrary: st)
  case Nil
  then show ?case by simp
next
  case (Cons a events)
  from Cons.prems(1) have
    "(e = a \<and> (CallReload, loading) \<in> set (fst (handleEvent st a))) \<or>
     (e, CallReload, loading) \<in> set (fst (runEvents (snd (handleEvent st a)) events))"
    by (auto simp: Let_def)
  then show ?case
    using Cons.IH Cons.prems(2) handleEvent_reload_not_loading by blast
qed

lemma pending_kept:
  "isLoadingRef st \<Longrightarrow> ytPendingStopThenReloadRef st \<Longrightarrow> e \<noteq> LoadEnd \<Longrightarrow>
   isLoadingRef (snd (handleEvent st e)) \<and> ytPendingStopThenReloadRef (snd (handleEvent st e)) \<and>
   (\<forall>x \<in> set (fst (handleEvent st e)). (e = MsgYtStopThenReload \<longrightarrow> fst x \<noteq> CallReload))"
  by (cases e) auto

lemma runEvents_append:
  "runEvents st (es @ fs) =
     (fst (runEvents st es) @ fst (runEvents (snd (runEvents st es)) fs),
      snd (runEvents (snd (runEvents st es)) fs))"
  by (induction es arbitrary: st) (auto simp: Let_def)

lemma pending_kept_run:
  "isLoadingRef st \<Longrightarrow> ytPendingStopThenReloadRef st \<Longrightarrow> LoadEnd \<notin> set es \<Longrightarrow>
   isLoadingRef (snd (runEvents st es)) \<and> ytPendingStopThenReloadRef (snd (runEvents st es)) \<and>
   (MsgYtStopThenReload, CallReload, l) \<notin> set (fst (runEvents st es))"
proof (induction es arbitrary: st)
  case Nil
  then show ?case by simp
next
  case (Cons a es)
  from Cons.prems have a: "a \<noteq> LoadEnd" and es: "LoadEnd \<notin> set es" by auto
  from pending_kept[OF Cons.prems(1,2) a]
  have k: "isLoadingRef (snd (handleEvent st a))" "ytPendingStopThenReloadRef (snd (handleEvent st a))"
    and n: "\<forall>x \<in> set (fst (handleEvent st a)). (a = MsgYtStopThenReload \<longrightarrow> fst x \<noteq> CallReload)"
    by auto
  from Cons.IH[OF k es] n show ?case
    by (auto simp: Let_def simp del: handleEvent.simps)
qed

text \<open>
  C9.  In every run of the handlers, from any state, a \<open>reload()\<close> issued for a
  stop-then-reload request (by the message handler or by \<open>handleLoadEnd\<close>) is issued
  while \<open>isLoadingRef\<close> is false.  The message handler stops loading first and reloads
  at once only when nothing is loading.  When a load is in progress the request stays
  pending through every event but a load end, no reload is issued for it meanwhile, and
  the next load end issues the reload.
\<close>

theorem stop_then_reload_sequencing:
  "((e, CallReload, loading) \<in> set (fst (runEvents st events)) \<and>
    (e = MsgYtStopThenReload \<or> e = LoadEnd) \<longrightarrow> \<not> loading) \<and>
   fst (handleEvent st MsgYtStopThenReload) =
     (if isLoadingRef st then [(CallStopLoading, True)]
      else [(CallStopLoading, False), (CallReload, False)]) \<and>
   (isLoadingRef st \<and> LoadEnd \<notin> set es \<longrightarrow>
      fst (runEvents st (MsgYtStopThenReload # es @ [LoadEnd])) =
        (MsgYtStopThenReload, CallStopLoading, True) #
        fst (runEvents (snd (handleEvent st MsgYtStopThenReload)) es) @
        [(LoadEnd, CallReload, False)] \<and>
      (MsgYtStopThenReload, CallReload, l) \<notin>
        set (fst (runEvents (snd (handleEvent st MsgYtStopThenReload)) es)))"
proof (intro conjI impI)
  show "fst (handleEvent st MsgYtStopThenReload) =
     (if isLoadingRef st then [(CallStopLoading, True)]
      else [(CallStopLoading, False), (CallReload, False)])"
    by simp
  {
    assume "(e, CallReload, loading) \<in> set (fst (runEvents st events)) \<and>
            (e = MsgYtStopThenReload \<or> e = LoadEnd)"
    then show "\<not> loading" using runEvents_reload_not_loading by blast
  }
  {
    assume h: "isLoadingRef st \<and> LoadEnd \<notin> set es"
    let ?s1 = "snd (handleEvent st MsgYtStopThenReload)"
    from h have s1: "isLoadingRef ?s1" "ytPendingStopThenReloadRef ?s1" by auto
    from pending_kept_run[OF s1, of es l] h
    have k: "isLoadingRef (snd (runEvents ?s1 es))"
            "ytPendingStopThenReloadRef (snd (runEvents ?s1 es))"
      and n: "(MsgYtStopThenReload, CallReload, l) \<notin> set (fst (runEvents ?s1 es))"
      by auto
    show "(MsgYtStopThenReload, CallReload, l) \<notin> set (fst (runEvents ?s1 es))" by (rule n)
    have "fst (runEvents ?s1 (es @ [LoadEnd])) =
            fst (runEvents ?s1 es) @ [(LoadEnd, CallReload, False)]"
      using k by (simp add: runEvents_append Let_def)
    with h show "fst (runEvents st (MsgYtStopThenReload # es @ [LoadEnd])) =
        (MsgYtStopThenReload, CallStopLoading, True) #
        fst (runEvents ?s1 es) @ [(LoadEnd, CallReload, False)]"
      by (simp add: Let_def)
  }
qed

text \<open>
  A load starts, the request arrives, the load ends: the reload is issued by the load
  end.  The second run has a permission reload and a further load start in between.
\<close>

theorem stop_then_reload_sequencing_witness:
  "(LoadEnd, CallReload, False) \<in> set (fst (runEvents initialLoadState [LoadStart, MsgYtStopThenReload, LoadEnd])) \<and>
   isLoadingRef (snd (runEvents initialLoadState [LoadStart])) \<and>
   LoadEnd \<notin> set [PermissionReload, LoadStart] \<and>
   fst (runEvents (snd (runEvents initialLoadState [LoadStart]))
          (MsgYtStopThenReload # [PermissionReload, LoadStart] @ [LoadEnd])) =
     [(MsgYtStopThenReload, CallStopLoading, True), (PermissionReload, CallReload, True),
      (LoadEnd, CallReload, False)]"
  using stop_then_reload_sequencing[of LoadEnd False initialLoadState
          "[LoadStart, MsgYtStopThenReload, LoadEnd]" "[]" True]
        stop_then_reload_sequencing[of LoadEnd False "snd (runEvents initialLoadState [LoadStart])"
          "[]" "[PermissionReload, LoadStart]" True]
  by (simp add: initialLoadState_def Let_def)

text \<open>
  The claim as stated fails for the reloads that are no stop-then-reload requests: the
  Reload button of the "Permissions Changed" prompt calls \<open>reload()\<close> while the page is
  loading.
\<close>

theorem reload_while_loading_counterexample:
  "(PermissionReload, CallReload, True) \<in>
     set (fst (runEvents initialLoadState [LoadStart, PermissionReload]))"
  by (simp add: initialLoadState_def Let_def)

section \<open>Properties of the Google-domain navigation policy\<close>

text \<open>
  C4.  With an active tab, a navigation to the Google home page (a URL of the Google
  search domain whose path is \<open>/\<close> or \<open>/webhp\<close>) whose referrer is no auth URL is
  redirected to the safe-search home page, whatever the referrer and the set of
  authorised URLs are.  When the target or the referrer is an auth URL the Google check
  is skipped and the navigation goes on to \<open>processUrl\<close> as any other.
\<close>

theorem google_homepage_redirected:
  "(truthy (activeTabId st) \<and> isGoogleSearchDomain newURL navUrl \<and>
    isGoogleHomePage newURL navUrl \<and> \<not> isFromGoogleAuth newURL st \<longrightarrow>
      handleNavigationStateChange newURL env st navUrl = redirectToSafeSearch st \<and>
      fst (handleNavigationStateChange newURL env st navUrl) = UpdateTabUrl SAFE_SEARCH_HOMEPAGE) \<and>
   (truthy (activeTabId st) \<and> (isGoogleAuthUrl newURL navUrl \<or> isFromGoogleAuth newURL st) \<longrightarrow>
      handleNavigationStateChange newURL env st navUrl = commitNavigation newURL env st navUrl)"
proof (intro conjI impI)
  assume h: "truthy (activeTabId st) \<and> isGoogleSearchDomain newURL navUrl \<and>
    isGoogleHomePage newURL navUrl \<and> \<not> isFromGoogleAuth newURL st"
  then have na: "\<not> isGoogleAuthUrl newURL navUrl"
    by (auto simp: isGoogleSearchDomain_def Let_def split: option.splits if_splits)
  with h show r: "handleNavigationStateChange newURL env st navUrl = redirectToSafeSearch st"
    by (simp add: handleNavigationStateChange_def Let_def)
  show "fst (handleNavigationStateChange newURL env st navUrl) = UpdateTabUrl SAFE_SEARCH_HOMEPAGE"
    unfolding r by (simp add: redirectToSafeSearch_def)
next
  assume "truthy (activeTabId st) \<and> (isGoogleAuthUrl newURL navUrl \<or> isFromGoogleAuth newURL st)"
  then show "handleNavigationStateChange newURL env st navUrl = commitNavigation newURL env st navUrl"
    by (auto simp: handleNavigationStateChange_def)
qed

text \<open>
  The specification's scenario: from a news page to \<open>https://www.google.com/\<close>, nothing
  authorised in the session.  And the exception: the home page with an OAuth parameter
  is committed.
\<close>

theorem google_homepage_redirected_witness:
  "truthy (activeTabId (tabOn ''https://news.example.org/'')) \<and>
   isGoogleSearchDomain referenceURL ''https://www.google.com/'' \<and>
   isGoogleHomePage referenceURL ''https://www.google.com/'' \<and>
   \<not> isFromGoogleAuth referenceURL (tabOn ''https://news.example.org/'') \<and>
   fst (handleNavigationStateChange referenceURL (envWithBlocklist [])
          (tabOn ''https://news.example.org/'') ''https://www.google.com/'')
     = UpdateTabUrl ''https://www.safesearchengine.com/'' \<and>
   isGoogleAuthUrl referenceURL ''https://www.google.com/?continue=x'' \<and>
   fst (handleNavigationStateChange referenceURL (envWithBlocklist [])
          (tabOn ''https://news.example.org/'') ''https://www.google.com/?continue=x'')
     = Commit"
proof -
  let ?st = "tabOn ''https://news.example.org/''"
  have e1: "isGoogleSearchDomain referenceURL ''https://www.google.com/''" by code_simp
  have e2: "isGoogleHomePage referenceURL ''https://www.google.com/''" by code_simp
  have e3: "\<not> isFromGoogleAuth referenceURL ?st" by code_simp
  have e4: "truthy (activeTabId ?st)" by code_simp
  have e5: "isGoogleAuthUrl referenceURL ''https://www.google.com/?continue=x''" by code_simp
  have e6: "fst (commitNavigation referenceURL (envWithBlocklist []) ?st
                   ''https://www.google.com/?continue=x'') = Commit" by code_simp
  have e7: "SAFE_SEARCH_HOMEPAGE = ''https://www.safesearchengine.com/''"
    by (simp add: SAFE_SEARCH_HOMEPAGE_def)
  have "handleNavigationStateChange referenceURL (envWithBlocklist []) ?st
          ''https://www.google.com/'' = redirectToSafeSearch ?st \<and>
        fst (handleNavigationStateChange referenceURL (envWithBlocklist []) ?st
               ''https://www.google.com/'') = UpdateTabUrl SAFE_SEARCH_HOMEPAGE"
    by (rule mp[OF conjunct1[OF google_homepage_redirected
                   [of ?st referenceURL "''https://www.google.com/''" "envWithBlocklist []"]]])
       (intro conjI e4 e1 e2 e3)
  then have r1: "fst (handleNavigationStateChange referenceURL (envWithBlocklist []) ?st
                   ''https://www.google.com/'') = UpdateTabUrl ''https://www.safesearchengine.com/''"
    unfolding e7 by (rule conjunct2)
  have "handleNavigationStateChange referenceURL (envWithBlocklist []) ?st
          ''https://www.google.com/?continue=x'' =
        commitNavigation referenceURL (envWithBlocklist []) ?st
          ''https://www.google.com/?continue=x''"
    by (rule mp[OF conjunct2[OF google_homepage_redirected
                   [of ?st referenceURL "''https://www.google.com/?continue=x''"
                       "envWithBlocklist []"]]])
       (intro conjI disjI1 e4 e5)
  with e6 have r2: "fst (handleNavigationStateChange referenceURL (envWithBlocklist []) ?st
                   ''https://www.google.com/?continue=x'') = Commit"
    by (simp only:)
  from e1 e2 e3 e4 e5 r1 r2 show ?thesis by (intro conjI)
qed

section \<open>Properties of the URL classifier\<close>

lemma endsWith_iff: "endsWith s t = (\<exists>p. s = p @ t)"
proof -
  have "endsWith s t = (\<exists>q. rev s = rev t @ q)"
    by (simp add: endsWith_def startsWith_iff)
  also have "\<dots> = (\<exists>p. s = p @ t)"
  proof
    assume "\<exists>q. rev s = rev t @ q"
    then obtain q where "rev s = rev t @ q" ..
    then have "rev (rev s) = rev (rev t @ q)" by simp
    then have "s = rev q @ t" by simp
    then show "\<exists>p. s = p @ t" ..
  next
    assume "\<exists>p. s = p @ t"
    then obtain p where "s = p @ t" ..
    then have "rev s = rev t @ rev p" by simp
    then show "\<exists>q. rev s = rev t @ q" ..
  qed
  finally show ?thesis .
qed

lemma auth_not_blocked_domain: "isGoogleAuthUrl newURL url \<Longrightarrow> \<not> isBlockedDomain newURL env url"
  by (simp add: isBlockedDomain_def)

lemma auth_not_blocked_section:
  "isGoogleAuthUrl newURL url \<Longrightarrow> \<not> isBlockedGoogleSection newURL env url"
  by (simp add: isBlockedGoogleSection_def Let_def split: option.splits)

lemma auth_safe_search_unchanged:
  "isGoogleAuthUrl newURL url \<Longrightarrow> enforceGoogleSafeSearch newURL url = url"
  by (simp add: enforceGoogleSafeSearch_def Let_def split: option.splits)

lemma facebook_never_blocked: "\<not> isBlockedFacebookUrl newURL url"
  by (simp add: isBlockedFacebookUrl_def Let_def split: option.splits)

text \<open>
  C1.  The auth exemption is consulted by two rules, the blocked-domain rule and the
  Google-section rule, and wins there: neither blocks a URL the exemption predicate
  matches.  Such a URL is classified unblocked whenever none of the rules that do not
  consult the exemption (APK download, blocked search engine, Reddit content, Reddit
  path, Instagram) matches it.
\<close>

theorem auth_exemption_wins_where_checked:
  "(isGoogleAuthUrl newURL url \<longrightarrow>
      \<not> isBlockedDomain newURL env url \<and> \<not> isBlockedGoogleSection newURL env url) \<and>
   (isGoogleAuthUrl newURL url \<and> \<not> isApkDownload url \<and> \<not> isBlockedSearchEngine newURL url \<and>
    \<not> isNsfwRedditUrl env url \<and> \<not> isBlockedRedditPath newURL url \<and>
    \<not> isBlockedInstagramUrl newURL url \<longrightarrow>
      processWebUrl newURL env url = notBlocked (enforceRedditSafe newURL url)) \<and>
   (isGoogleAuthUrl newURL (webUrlOf inputUrl) \<and> \<not> isApkDownload (webUrlOf inputUrl) \<and>
    \<not> isBlockedSearchEngine newURL (webUrlOf inputUrl) \<and>
    \<not> isNsfwRedditUrl env (webUrlOf inputUrl) \<and> \<not> isBlockedRedditPath newURL (webUrlOf inputUrl) \<and>
    \<not> isBlockedInstagramUrl newURL (webUrlOf inputUrl) \<longrightarrow>
      \<not> blocked (processUrl newURL env inputUrl))"
proof (intro conjI impI)
  assume "isGoogleAuthUrl newURL url"
  then show "\<not> isBlockedDomain newURL env url" by (rule auth_not_blocked_domain)
next
  assume "isGoogleAuthUrl newURL url"
  then show "\<not> isBlockedGoogleSection newURL env url" by (rule auth_not_blocked_section)
next
  assume "isGoogleAuthUrl newURL url \<and> \<not> isApkDownload url \<and> \<not> isBlockedSearchEngine newURL url \<and>
    \<not> isNsfwRedditUrl env url \<and> \<not> isBlockedRedditPath newURL url \<and>
    \<not> isBlockedInstagramUrl newURL url"
  then show "processWebUrl newURL env url = notBlocked (enforceRedditSafe newURL url)"
    by (simp add: processWebUrl_def auth_not_blocked_domain auth_not_blocked_section
        auth_safe_search_unchanged facebook_never_blocked)
next
  let ?u = "webUrlOf inputUrl"
  assume h: "isGoogleAuthUrl newURL ?u \<and> \<not> isApkDownload ?u \<and>
    \<not> isBlockedSearchEngine newURL ?u \<and>
    \<not> isNsfwRedditUrl env ?u \<and> \<not> isBlockedRedditPath newURL ?u \<and>
    \<not> isBlockedInstagramUrl newURL ?u"
  then have w: "processWebUrl newURL env ?u = notBlocked (enforceRedditSafe newURL ?u)"
    by (simp add: processWebUrl_def auth_not_blocked_domain auth_not_blocked_section
        auth_safe_search_unchanged facebook_never_blocked)
  have "processUrl newURL env inputUrl = processWebUrl newURL env ?u \<or>
        processUrl newURL env inputUrl = notBlocked (trim inputUrl)"
    by (simp add: processUrl_def webUrlOf_def Let_def)
  with w show "\<not> blocked (processUrl newURL env inputUrl)"
    by (auto simp: notBlocked_def)
qed

text \<open>
  The login page of a blocked domain, typed without its scheme: it matches the
  exemption and none of the other rules, and is not blocked.  Neither is the
  specification's example, an OAuth URL of \<open>accounts.google.com\<close>.
\<close>

theorem auth_exemption_wins_where_checked_witness:
  "webUrlOf ''example.com/login'' = ''https://example.com/login'' \<and>
   isGoogleAuthUrl referenceURL ''https://example.com/login'' \<and>
   \<not> isApkDownload ''https://example.com/login'' \<and>
   \<not> isBlockedSearchEngine referenceURL ''https://example.com/login'' \<and>
   \<not> isNsfwRedditUrl (envWithBlocklist [''example.com'']) ''https://example.com/login'' \<and>
   \<not> isBlockedRedditPath referenceURL ''https://example.com/login'' \<and>
   \<not> isBlockedInstagramUrl referenceURL ''https://example.com/login'' \<and>
   \<not> isBlockedDomain referenceURL (envWithBlocklist [''example.com''])
       ''https://example.com/login'' \<and>
   \<not> blocked (processUrl referenceURL (envWithBlocklist [''example.com''])
                ''example.com/login'') \<and>
   \<not> blocked (processUrl referenceURL (envWithBlocklist [''google.com''])
                ''https://accounts.google.com/signin/oauth?client_id=x&redirect_uri=y&state=z'')"
proof -
  have spec_example:
    "\<not> blocked (processUrl referenceURL (envWithBlocklist [''google.com''])
        ''https://accounts.google.com/signin/oauth?client_id=x&redirect_uri=y&state=z'')"
    by code_simp
  let ?env = "envWithBlocklist [''example.com'']"
  let ?u = "''https://example.com/login''"
  have w: "webUrlOf ''example.com/login'' = ?u" by code_simp
  have a: "isGoogleAuthUrl referenceURL ?u" by code_simp
  have b: "\<not> isApkDownload ?u" by code_simp
  have c: "\<not> isBlockedSearchEngine referenceURL ?u" by code_simp
  have d: "\<not> isNsfwRedditUrl ?env ?u" by code_simp
  have e: "\<not> isBlockedRedditPath referenceURL ?u" by code_simp
  have f: "\<not> isBlockedInstagramUrl referenceURL ?u" by code_simp
  note inst = auth_exemption_wins_where_checked[of referenceURL ?u ?env "''example.com/login''"]
  from inst a have g: "\<not> isBlockedDomain referenceURL ?env ?u" by (simp only: simp_thms)
  from inst a b c d e f
  have h: "\<not> blocked (processUrl referenceURL ?env ''example.com/login'')"
    unfolding w by (simp only: simp_thms)
  from w a b c d e f g h spec_example show ?thesis by (intro conjI)
qed

text \<open>
  The claim as stated fails: the login page of a blocked search engine and an APK on
  an auth host match the exemption and are blocked.
\<close>

theorem auth_url_blocked_counterexample:
  "isGoogleAuthUrl referenceURL ''https://duckduckgo.com/login'' \<and>
   isBlockedSearchEngine referenceURL ''https://duckduckgo.com/login'' \<and>
   blocked (processUrl referenceURL (envWithBlocklist []) ''https://duckduckgo.com/login'') \<and>
   isGoogleAuthUrl referenceURL ''https://accounts.google.com/download.apk'' \<and>
   isApkDownload ''https://accounts.google.com/download.apk'' \<and>
   blocked (processUrl referenceURL (envWithBlocklist []) ''https://accounts.google.com/download.apk'')"
  by code_simp

lemma isBlockedDomain_iff:
  "isBlockedDomain newURL env url =
     (\<not> isGoogleAuthUrl newURL url \<and>
      (\<exists>b\<in>set (getAllBlockedDomains env).
          toLowerCase (extractDomain newURL url) = toLowerCase b \<or>
          (\<exists>p. toLowerCase (extractDomain newURL url) = p @ ''.'' @ toLowerCase b)))"
  by (simp add: isBlockedDomain_def Let_def list_ex_iff endsWith_iff)

text \<open>
  C3.  The blocked-domain rule blocks a URL exactly when the URL does not match the auth
  exemption and its host (lower case, without a leading \<open>www.\<close>) equals an entry of the
  index in lower case or ends with a dot followed by such an entry.  With \<open>example.com\<close>
  in the index \<open>https://sub.example.com/path\<close> is blocked and \<open>https://notexample.com\<close>
  is not; with \<open>adult-example.com\<close> in the index \<open>http://ADULT-EXAMPLE.com/page\<close> is
  blocked with the reason "This website is blocked for safety".
\<close>

theorem blocked_domain_suffix_match:
  "isBlockedDomain newURL env url =
     (\<not> isGoogleAuthUrl newURL url \<and>
      (\<exists>b\<in>set (getAllBlockedDomains env).
          toLowerCase (extractDomain newURL url) = toLowerCase b \<or>
          (\<exists>p. toLowerCase (extractDomain newURL url) = p @ ''.'' @ toLowerCase b))) \<and>
   blocked (processUrl referenceURL (envWithBlocklist [''example.com''])
              ''https://sub.example.com/path'') \<and>
   \<not> blocked (processUrl referenceURL (envWithBlocklist [''example.com''])
                ''https://notexample.com'') \<and>
   processUrl referenceURL (envWithBlocklist [''adult-example.com''])
       ''http://ADULT-EXAMPLE.com/page''
     = \<lparr>resultUrl = ''http://ADULT-EXAMPLE.com/page'', blocked = True,
        reason = Some ''This website is blocked for safety'', redirect = None\<rparr>"
proof (intro conjI)
  show "isBlockedDomain newURL env url =
     (\<not> isGoogleAuthUrl newURL url \<and>
      (\<exists>b\<in>set (getAllBlockedDomains env).
          toLowerCase (extractDomain newURL url) = toLowerCase b \<or>
          (\<exists>p. toLowerCase (extractDomain newURL url) = p @ ''.'' @ toLowerCase b)))"
    by (rule isBlockedDomain_iff)
  show "blocked (processUrl referenceURL (envWithBlocklist [''example.com''])
              ''https://sub.example.com/path'')"
    by code_simp
  show "\<not> blocked (processUrl referenceURL (envWithBlocklist [''example.com''])
                ''https://notexample.com'')"
    by code_simp
  show "processUrl referenceURL (envWithBlocklist [''adult-example.com''])
       ''http://ADULT-EXAMPLE.com/page''
     = \<lparr>resultUrl = ''http://ADULT-EXAMPLE.com/page'', blocked = True,
        reason = Some ''This website is blocked for safety'', redirect = None\<rparr>"
    by code_simp
qed

text \<open>
  The general part at the subdomain example.
\<close>

theorem blocked_domain_suffix_match_witness:
  "\<not> isGoogleAuthUrl referenceURL ''https://sub.example.com/path'' \<and>
   toLowerCase (extractDomain referenceURL ''https://sub.example.com/path'') =
     ''sub'' @ ''.'' @ toLowerCase ''example.com'' \<and>
   isBlockedDomain referenceURL (envWithBlocklist [''example.com''])
     ''https://sub.example.com/path''"
proof -
  let ?env = "envWithBlocklist [''example.com'']"
  let ?url = "''https://sub.example.com/path''"
  have a: "\<not> isGoogleAuthUrl referenceURL ?url" by code_simp
  have b: "toLowerCase (extractDomain referenceURL ?url) =
           ''sub'' @ ''.'' @ toLowerCase ''example.com''" by code_simp
  have c: "''example.com'' \<in> set (getAllBlockedDomains ?env)"
    by (simp add: envWithBlocklist_def)
  have d: "\<exists>b\<in>set (getAllBlockedDomains ?env).
             toLowerCase (extractDomain referenceURL ?url) = toLowerCase b \<or>
             (\<exists>p. toLowerCase (extractDomain referenceURL ?url) = p @ ''.'' @ toLowerCase b)"
    by (rule bexI[OF _ c], rule disjI2, rule exI[of _ "''sub''"], rule b)
  have "isBlockedDomain referenceURL ?env ?url"
    by (rule iffD2[OF conjunct1[OF blocked_domain_suffix_match[of referenceURL ?env ?url]]],
        rule conjI[OF a d])
  with a b show ?thesis by (intro conjI)
qed

text \<open>
  The claim as stated, without the exemption, fails: the host of
  \<open>https://example.com/login\<close> is in the index and the rule does not block it.
\<close>

theorem blocked_domain_auth_counterexample:
  "toLowerCase (extractDomain referenceURL ''https://example.com/login'') = ''example.com'' \<and>
   ''example.com'' \<in> set (getAllBlockedDomains (envWithBlocklist [''example.com''])) \<and>
   \<not> isBlockedDomain referenceURL (envWithBlocklist [''example.com''])
       ''https://example.com/login''"
  by code_simp

lemma isBlockedGoogleSection_sections:
  "newURL (withHttps url) = Some urlObj \<Longrightarrow> isGoogleHost urlObj \<Longrightarrow>
   \<not> isGoogleAuthUrl newURL url \<Longrightarrow>
   isBlockedGoogleSection newURL env url =
     ((isGoogleImagesBlockingEnabled env \<and> indicatesImages urlObj url) \<or>
      indicatesVideos urlObj url \<or> indicatesShorts urlObj url)"
  by (auto simp: isBlockedGoogleSection_def isGoogleHost_def indicatesImages_def
      indicatesVideos_def indicatesShorts_def Let_def)

lemma isBlockedGoogleSection_flag_only:
  "isGoogleImagesBlockingEnabled env = isGoogleImagesBlockingEnabled env' \<Longrightarrow>
   isBlockedGoogleSection newURL env url = isBlockedGoogleSection newURL env' url"
  by (simp add: isBlockedGoogleSection_def Let_def split: option.splits)

lemma flag_cases:
  "isGoogleImagesBlockingEnabled env = isGoogleImagesBlockingEnabled (envWithImagesBlocking (Some ''false'')) \<or>
   isGoogleImagesBlockingEnabled env = isGoogleImagesBlockingEnabled (envWithImagesBlocking None)"
proof -
  have "isGoogleImagesBlockingEnabled (envWithImagesBlocking (Some ''false''))" by code_simp
  moreover have "\<not> isGoogleImagesBlockingEnabled (envWithImagesBlocking None)" by code_simp
  ultimately show ?thesis by auto
qed

lemma videos_blocked_any_flag:
  "isBlockedGoogleSection referenceURL env ''https://www.google.com/search?q=cats&tbm=vid''"
proof -
  have "isBlockedGoogleSection referenceURL (envWithImagesBlocking (Some ''false''))
          ''https://www.google.com/search?q=cats&tbm=vid''" by code_simp
  moreover have "isBlockedGoogleSection referenceURL (envWithImagesBlocking None)
          ''https://www.google.com/search?q=cats&tbm=vid''" by code_simp
  ultimately show ?thesis
    using flag_cases[of env] isBlockedGoogleSection_flag_only by metis
qed

lemma images_not_blocked_flag_off:
  assumes "\<not> isGoogleImagesBlockingEnabled env"
  shows "\<not> isBlockedGoogleSection referenceURL env ''https://www.google.com/search?q=cats&tbm=isch''"
proof -
  have off: "\<not> isGoogleImagesBlockingEnabled (envWithImagesBlocking None)" by code_simp
  have "\<not> isBlockedGoogleSection referenceURL (envWithImagesBlocking None)
          ''https://www.google.com/search?q=cats&tbm=isch''" by code_simp
  then show ?thesis
    using assms off isBlockedGoogleSection_flag_only[of env "envWithImagesBlocking None"] by simp
qed

text \<open>
  C5.  For a URL of a Google host that is no auth URL, the section rule blocks exactly
  when the Videos or the Shorts section is indicated, or the Images section is and the
  images flag is on.  An auth URL is never blocked by it.  With the flag off
  \<open>https://www.google.com/search?q=cats&tbm=isch\<close> is not blocked, and
  \<open>https://www.google.com/search?q=cats&tbm=vid\<close> is blocked whatever the flag is.
\<close>

theorem google_sections_independent:
  "(newURL (withHttps url) = Some urlObj \<and> isGoogleHost urlObj \<and> \<not> isGoogleAuthUrl newURL url \<longrightarrow>
      isBlockedGoogleSection newURL env url =
        ((isGoogleImagesBlockingEnabled env \<and> indicatesImages urlObj url) \<or>
         indicatesVideos urlObj url \<or> indicatesShorts urlObj url)) \<and>
   (isGoogleAuthUrl newURL url \<longrightarrow> \<not> isBlockedGoogleSection newURL env url) \<and>
   (\<not> isGoogleImagesBlockingEnabled env \<longrightarrow>
      \<not> isBlockedGoogleSection referenceURL env ''https://www.google.com/search?q=cats&tbm=isch'') \<and>
   isBlockedGoogleSection referenceURL env ''https://www.google.com/search?q=cats&tbm=vid''"
proof (intro conjI impI)
  assume "newURL (withHttps url) = Some urlObj \<and> isGoogleHost urlObj \<and>
          \<not> isGoogleAuthUrl newURL url"
  then show "isBlockedGoogleSection newURL env url =
        ((isGoogleImagesBlockingEnabled env \<and> indicatesImages urlObj url) \<or>
         indicatesVideos urlObj url \<or> indicatesShorts urlObj url)"
    using isBlockedGoogleSection_sections[of newURL url urlObj env] by simp
next
  assume "isGoogleAuthUrl newURL url"
  then show "\<not> isBlockedGoogleSection newURL env url" by (rule auth_not_blocked_section)
next
  assume "\<not> isGoogleImagesBlockingEnabled env"
  then show "\<not> isBlockedGoogleSection referenceURL env
                 ''https://www.google.com/search?q=cats&tbm=isch''"
    by (rule images_not_blocked_flag_off)
next
  show "isBlockedGoogleSection referenceURL env ''https://www.google.com/search?q=cats&tbm=vid''"
    by (rule videos_blocked_any_flag)
qed

text \<open>
  A Shorts URL and an auth URL with a Videos parameter, with the flag off.
\<close>

theorem google_sections_independent_witness:
  "referenceURL (withHttps ''https://www.google.com/search?q=cats&udm=39'') =
     Some (the (referenceURL ''https://www.google.com/search?q=cats&udm=39'')) \<and>
   isGoogleHost (the (referenceURL ''https://www.google.com/search?q=cats&udm=39'')) \<and>
   \<not> isGoogleAuthUrl referenceURL ''https://www.google.com/search?q=cats&udm=39'' \<and>
   indicatesShorts (the (referenceURL ''https://www.google.com/search?q=cats&udm=39''))
     ''https://www.google.com/search?q=cats&udm=39'' \<and>
   isBlockedGoogleSection referenceURL (envWithImagesBlocking None)
     ''https://www.google.com/search?q=cats&udm=39'' \<and>
   isGoogleAuthUrl referenceURL ''https://accounts.google.com/signin?tbm=vid'' \<and>
   \<not> isBlockedGoogleSection referenceURL (envWithImagesBlocking None)
       ''https://accounts.google.com/signin?tbm=vid'' \<and>
   \<not> isGoogleImagesBlockingEnabled (envWithImagesBlocking None) \<and>
   \<not> isBlockedGoogleSection referenceURL (envWithImagesBlocking None)
       ''https://www.google.com/search?q=cats&tbm=isch''"
proof -
  let ?u = "''https://www.google.com/search?q=cats&udm=39''"
  let ?env = "envWithImagesBlocking None"
  have p0: "withHttps ?u = ?u" by code_simp
  have p1: "\<not> Option.is_none (referenceURL ?u)" by code_simp
  then have p2: "referenceURL (withHttps ?u) = Some (the (referenceURL ?u))"
    unfolding p0 by (cases "referenceURL ?u") simp_all
  have p3: "isGoogleHost (the (referenceURL ?u))" by code_simp
  have p4: "\<not> isGoogleAuthUrl referenceURL ?u" by code_simp
  have p5: "indicatesShorts (the (referenceURL ?u)) ?u" by code_simp
  have p6: "isGoogleAuthUrl referenceURL ''https://accounts.google.com/signin?tbm=vid''"
    by code_simp
  have p7: "\<not> isGoogleImagesBlockingEnabled ?env" by code_simp
  note t1 = google_sections_independent[of referenceURL ?u "the (referenceURL ?u)" ?env]
  note t2 = google_sections_independent
              [of referenceURL "''https://accounts.google.com/signin?tbm=vid''" _ ?env]
  from t1 p2 p3 p4 p5 have r1: "isBlockedGoogleSection referenceURL ?env ?u"
    by (simp only: simp_thms)
  from t2 p6 have r2: "\<not> isBlockedGoogleSection referenceURL ?env
                           ''https://accounts.google.com/signin?tbm=vid''"
    by (simp only: simp_thms)
  from t1 p7 have r3: "\<not> isBlockedGoogleSection referenceURL ?env
                           ''https://www.google.com/search?q=cats&tbm=isch''"
    by (simp only: simp_thms)
  from p2 p3 p4 p5 r1 p6 r2 p7 r3 show ?thesis by (intro conjI)
qed

section \<open>Properties of the filter-list parser\<close>

lemma toLowerChar_idem: "toLowerChar (toLowerChar c) = toLowerChar c"
  by (simp add: toLowerChar_def)

lemma toLowerCase_idem: "toLowerCase (toLowerCase s) = toLowerCase s"
  by (simp add: toLowerCase_def toLowerChar_idem)

lemma toLowerChar_fixed: "(toLowerChar c = c) = (\<not> isUpperLetter c)"
proof (cases "isUpperLetter c")
  case True
  then have "of_char (toLowerChar c) = (of_char c :: nat) + 32"
    by (simp add: toLowerChar_def isUpperLetter_def)
  then have "toLowerChar c \<noteq> c" by auto
  with True show ?thesis by simp
next
  case False
  then have "toLowerChar c = c"
    by (auto simp: toLowerChar_def isUpperLetter_def)
  with False show ?thesis by simp
qed

lemma toLowerCase_fixed: "(toLowerCase s = s) = (\<forall>c\<in>set s. \<not> isUpperLetter c)"
  by (induction s) (auto simp: toLowerCase_def toLowerChar_fixed)

lemma lowerDistinct_add:
  "lowerDistinct ds \<Longrightarrow> lowerDistinct (addDomain (toLowerCase g) ds)"
  by (auto simp: lowerDistinct_def addDomain_def toLowerCase_idem)

lemma lowerDistinct_easyListLine: "lowerDistinct ds \<Longrightarrow> lowerDistinct (easyListLine ds l)"
  by (simp add: easyListLine_def Let_def lowerDistinct_add split: option.splits)

lemma lowerDistinct_domainsLine: "lowerDistinct ds \<Longrightarrow> lowerDistinct (domainsLine ds l)"
  by (simp add: domainsLine_def Let_def lowerDistinct_add)

lemma lowerDistinct_hostsLine: "lowerDistinct ds \<Longrightarrow> lowerDistinct (hostsLine ds l)"
  by (simp add: hostsLine_def Let_def lowerDistinct_add split: option.splits)

lemma lowerDistinct_foldl:
  "(\<And>ds l. lowerDistinct ds \<Longrightarrow> lowerDistinct (f ds l)) \<Longrightarrow> lowerDistinct ds \<Longrightarrow>
   lowerDistinct (foldl f ds ls)"
  by (induction ls arbitrary: ds) auto

lemma lowerDistinct_Nil: "lowerDistinct []"
  by (simp add: lowerDistinct_def)

lemma lowerDistinct_parseEasyListFormat: "lowerDistinct (parseEasyListFormat content)"
  unfolding parseEasyListFormat_def
  by (rule lowerDistinct_foldl[OF lowerDistinct_easyListLine lowerDistinct_Nil])

lemma lowerDistinct_parseDomainsFormat: "lowerDistinct (parseDomainsFormat content)"
  unfolding parseDomainsFormat_def
  by (rule lowerDistinct_foldl[OF lowerDistinct_domainsLine lowerDistinct_Nil])

lemma lowerDistinct_parseHostsFormat: "lowerDistinct (parseHostsFormat content)"
  unfolding parseHostsFormat_def
  by (rule lowerDistinct_foldl[OF lowerDistinct_hostsLine lowerDistinct_Nil])

lemma lowerDistinct_parseBlocklistContent: "lowerDistinct (parseBlocklistContent content hint)"
  by (simp add: parseBlocklistContent_def parseAdGuardFormat_def Let_def
      lowerDistinct_parseEasyListFormat lowerDistinct_parseDomainsFormat
      lowerDistinct_parseHostsFormat split: option.splits blocklist_format.splits)

lemma includesStr_single: "includesStr s [c] = (c \<in> set s)"
  by (induction s) auto

lemma toLowerChar_code: "of_char (toLowerChar c) =
   (if isUpperLetter c then (of_char c :: nat) + 32 else of_char c)"
  by (simp add: toLowerChar_def isUpperLetter_def)

lemma toLowerChar_eq_dot: "(toLowerChar c = CHR ''.'') = (c = CHR ''.'')"
proof
  assume h: "toLowerChar c = CHR ''.''"
  then have "(of_char (toLowerChar c) :: nat) = 46" by simp
  then have "\<not> isUpperLetter c" by (auto simp: toLowerChar_code isUpperLetter_def split: if_splits)
  then have "toLowerChar c = c" by (simp add: toLowerChar_fixed)
  with h show "c = CHR ''.''" by simp
next
  assume "c = CHR ''.''"
  then show "toLowerChar c = CHR ''.''" by (simp add: toLowerChar_def)
qed

lemma dot_in_toLowerCase: "(CHR ''.'' \<in> set (toLowerCase g)) = (CHR ''.'' \<in> set g)"
proof (induction g)
  case Nil
  show ?case by (simp add: toLowerCase_def)
next
  case (Cons a g)
  have "(CHR ''.'' = toLowerChar a) = (CHR ''.'' = a)"
    using toLowerChar_eq_dot[of a] by auto
  with Cons show ?case by (simp add: toLowerCase_def)
qed

lemma isAlnum_domainChar: "isAlnum c \<Longrightarrow> isDomainChar c"
  by (simp add: isDomainChar_def)

lemma isLetter_domainChar: "isLetter c \<Longrightarrow> isDomainChar c"
  by (auto simp: isDomainChar_def isAlnum_def isLetter_def)

lemma isLetter_alnum: "isLetter c \<Longrightarrow> isAlnum c"
  by (auto simp: isAlnum_def isLetter_def)

lemma domainChar_toLowerChar: "isDomainChar c \<Longrightarrow> isDomainChar (toLowerChar c)"
proof (cases "isUpperLetter c")
  case True
  then have "isLowerLetter (toLowerChar c)"
    by (simp add: isLowerLetter_def toLowerChar_code isUpperLetter_def)
  then show ?thesis by (simp add: isDomainChar_def isAlnum_def)
next
  case False
  assume "isDomainChar c"
  with False show ?thesis by (simp add: toLowerChar_fixed[THEN iffD2])
qed

lemma domainChar_code:
  "isDomainChar c \<Longrightarrow>
     (of_char c :: nat) = 45 \<or> (of_char c :: nat) = 46 \<or> (of_char c :: nat) = 95 \<or>
     (48 \<le> (of_char c :: nat) \<and> (of_char c :: nat) \<le> 57) \<or>
     (65 \<le> (of_char c :: nat) \<and> (of_char c :: nat) \<le> 90) \<or>
     (97 \<le> (of_char c :: nat) \<and> (of_char c :: nat) \<le> 122)"
  by (auto simp: isDomainChar_def isAlnum_def isLowerLetter_def isUpperLetter_def isDigit_def)

lemma domainChar_not_special:
  assumes "isDomainChar c"
  shows "c \<noteq> CHR ''*'' \<and> c \<noteq> CHR ''^'' \<and> c \<noteq> CHR ''/'' \<and> c \<noteq> CHR ''$'' \<and>
         \<not> isSpaceChar c \<and> c \<noteq> newline \<and> c \<noteq> CHR ''|'' \<and> c \<noteq> CHR ''#''"
proof -
  note code = domainChar_code[OF assms]
  have "c \<noteq> CHR ''*''" using code by auto
  moreover have "c \<noteq> CHR ''^''" using code by auto
  moreover have "c \<noteq> CHR ''/''" using code by auto
  moreover have "c \<noteq> CHR ''$''" using code by auto
  moreover have "\<not> isSpaceChar c" using code by (auto simp: isSpaceChar_def)
  moreover have "c \<noteq> newline" using code by (auto simp: newline_def)
  moreover have "c \<noteq> CHR ''|''" using code by auto
  moreover have "c \<noteq> CHR ''#''" using code by auto
  ultimately show ?thesis by blast
qed

lemma isHostName_chars: "isHostName g \<Longrightarrow> list_all isDomainChar g"
  by (auto simp: isHostName_def isAlnum_domainChar)

lemma isHostName_ends:
  "isHostName g \<Longrightarrow> g \<noteq> [] \<and> isAlnum (hd g) \<and> isAlnum (last g) \<and> length g \<ge> 2"
  by (auto simp: isHostName_def)

lemma isHostLabelRun_iff: "isHostLabelRun g = isHostName g"
proof
  assume h: "isHostLabelRun g"
  then have len: "length g \<ge> 2" by (simp add: isHostLabelRun_def)
  then obtain a t where g: "g = a # t" by (cases g) auto
  with len have "t \<noteq> []" by auto
  then have t: "t = butlast t @ [last t]" by simp
  from h g \<open>t \<noteq> []\<close>
  have "isAlnum a" "isAlnum (last t)" "list_all isDomainChar (butlast t)"
    by (auto simp: isHostLabelRun_def list_all_iff dest: in_set_butlastD)
  with g t show "isHostName g" unfolding isHostName_def by metis
next
  assume "isHostName g"
  then show "isHostLabelRun g"
    by (auto simp: isHostName_def isHostLabelRun_def isAlnum_domainChar)
qed

lemma run_then_rest:
  assumes "list_all P g" and "r = [] \<or> \<not> P (hd r)"
  shows "takeWhile P (g @ r) = g" and "dropWhile P (g @ r) = r"
proof -
  from assms(1) have all: "\<And>x. x \<in> set g \<Longrightarrow> P x" by (simp add: list_all_iff)
  from assms(2) have r1: "takeWhile P r = []" and r2: "dropWhile P r = r"
    by (cases r; auto)+
  show "takeWhile P (g @ r) = g" using all r1 by (simp add: takeWhile_append2)
  show "dropWhile P (g @ r) = r" using all r2 by (simp add: dropWhile_append2)
qed

lemma split_run:
  "takeWhile P t = g \<Longrightarrow> dropWhile P t = r \<Longrightarrow>
   t = g @ r \<and> list_all P g \<and> (r = [] \<or> \<not> P (hd r))"
  by (auto simp: list_all_iff dest: set_takeWhileD hd_dropWhile)

lemma matchDomainBlock_iff:
  "(matchDomainBlock line = Some g) =
     (\<exists>c rest. line = ''||'' @ g @ c # rest \<and> isHostName g \<and>
                (c = CHR ''^'' \<or> c = CHR ''/'' \<or> c = CHR ''$''))"
proof
  assume m: "matchDomainBlock line = Some g"
  then have sw: "startsWith line ''||''" by (simp add: matchDomainBlock_def split: if_splits)
  then obtain t where t: "line = ''||'' @ t" by (auto simp: startsWith_iff)
  from m sw t have g: "takeWhile isDomainChar t = g" and run: "isHostLabelRun g"
    and after: "case dropWhile isDomainChar t of [] \<Rightarrow> False
                  | c # _ \<Rightarrow> c = CHR ''^'' \<or> c = CHR ''/'' \<or> c = CHR ''$''"
    by (auto simp: matchDomainBlock_def Let_def split: if_splits)
  from after obtain c rest where d: "dropWhile isDomainChar t = c # rest"
    and c: "c = CHR ''^'' \<or> c = CHR ''/'' \<or> c = CHR ''$''"
    by (cases "dropWhile isDomainChar t") auto
  from split_run[OF g d] have "t = g @ c # rest" by simp
  with t c run show "\<exists>c rest. line = ''||'' @ g @ c # rest \<and> isHostName g \<and>
                (c = CHR ''^'' \<or> c = CHR ''/'' \<or> c = CHR ''$'')"
    by (auto simp: isHostLabelRun_iff)
next
  assume "\<exists>c rest. line = ''||'' @ g @ c # rest \<and> isHostName g \<and>
                (c = CHR ''^'' \<or> c = CHR ''/'' \<or> c = CHR ''$'')"
  then obtain c rest where l: "line = ''||'' @ g @ c # rest" and h: "isHostName g"
    and c: "c = CHR ''^'' \<or> c = CHR ''/'' \<or> c = CHR ''$''" by blast
  from c have nc: "\<not> isDomainChar c" using domainChar_not_special by blast
  have tw: "takeWhile isDomainChar (g @ c # rest) = g"
    and dw: "dropWhile isDomainChar (g @ c # rest) = c # rest"
    using run_then_rest[OF isHostName_chars[OF h], of "c # rest"] nc by auto
  from l have sw: "startsWith line ''||''" and dr: "drop 2 line = g @ c # rest" by auto
  show "matchDomainBlock line = Some g"
    unfolding matchDomainBlock_def Let_def dr tw dw using sw h c
    by (simp add: isHostLabelRun_iff)
qed

lemma matchDomainWithOptions_iff:
  "(matchDomainWithOptions line = Some g) =
     (\<exists>rest. line = ''||'' @ g @ CHR ''$'' # rest \<and> isHostName g)"
proof
  assume m: "matchDomainWithOptions line = Some g"
  then have sw: "startsWith line ''||''"
    by (simp add: matchDomainWithOptions_def split: if_splits)
  then obtain t where t: "line = ''||'' @ t" by (auto simp: startsWith_iff)
  from m sw t have g: "takeWhile isDomainChar t = g" and run: "isHostLabelRun g"
    and after: "case dropWhile isDomainChar t of [] \<Rightarrow> False | c # _ \<Rightarrow> c = CHR ''$''"
    by (auto simp: matchDomainWithOptions_def Let_def split: if_splits)
  from after obtain rest where d: "dropWhile isDomainChar t = CHR ''$'' # rest"
    by (cases "dropWhile isDomainChar t") auto
  from split_run[OF g d] have "t = g @ CHR ''$'' # rest" by simp
  with t run show "\<exists>rest. line = ''||'' @ g @ CHR ''$'' # rest \<and> isHostName g"
    by (auto simp: isHostLabelRun_iff)
next
  assume "\<exists>rest. line = ''||'' @ g @ CHR ''$'' # rest \<and> isHostName g"
  then obtain rest where l: "line = ''||'' @ g @ CHR ''$'' # rest" and h: "isHostName g"
    by blast
  have nc: "\<not> isDomainChar (CHR ''$'')" using domainChar_not_special by blast
  have tw: "takeWhile isDomainChar (g @ CHR ''$'' # rest) = g"
    and dw: "dropWhile isDomainChar (g @ CHR ''$'' # rest) = CHR ''$'' # rest"
    using run_then_rest[OF isHostName_chars[OF h], of "CHR ''$'' # rest"] nc by auto
  from l have sw: "startsWith line ''||''" and dr: "drop 2 line = g @ CHR ''$'' # rest" by auto
  show "matchDomainWithOptions line = Some g"
    unfolding matchDomainWithOptions_def Let_def dr tw dw using sw h
    by (simp add: isHostLabelRun_iff)
qed

lemma isLetter_not_dot: "isLetter c \<Longrightarrow> c \<noteq> CHR ''.''"
  by (auto simp: isLetter_def isLowerLetter_def isUpperLetter_def)

lemma isSimpleDomain_iff: "isSimpleDomain s = isPlainDomain s"
proof
  assume h: "isSimpleDomain s"
  define tld where "tld = takeWhile isLetter (rev s)"
  define pre where "pre = dropWhile isLetter (rev s)"
  from h have len: "length tld \<ge> 2" "length pre \<ge> 2" and dot: "hd pre = CHR ''.''"
    and chars: "list_all isDomainChar s" and first: "isAlnum (hd s)"
    by (simp_all add: isSimpleDomain_def Let_def tld_def pre_def)
  have rs: "rev s = tld @ pre" by (simp add: tld_def pre_def)
  from len dot obtain q where pre: "pre = CHR ''.'' # q"
    by (cases pre) auto
  from len(2) pre have q: "q \<noteq> []" by auto
  from rs pre have s: "s = rev q @ ''.'' @ rev tld"
    by (metis append_Cons append_Nil rev.simps(2) rev_append rev_rev_ident append_assoc)
  from q obtain a m where am: "rev q = a # m" by (cases "rev q") auto
  from s am have s': "s = a # m @ ''.'' @ rev tld" by simp
  have tl: "list_all isLetter (rev tld)"
    by (auto simp: tld_def list_all_iff dest: set_takeWhileD)
  from chars s' have "list_all isDomainChar m" by (simp add: list_all_iff)
  moreover from first s' have "isAlnum a" by simp
  ultimately show "isPlainDomain s"
    unfolding isPlainDomain_def using s' tl len(1) by (metis length_rev)
next
  assume "isPlainDomain s"
  then obtain a m t where s: "s = a # m @ ''.'' @ t" and a: "isAlnum a"
    and m: "list_all isDomainChar m" and t: "list_all isLetter t" and len: "length t \<ge> 2"
    unfolding isPlainDomain_def by blast
  have rs: "rev s = rev t @ (CHR ''.'' # rev m @ [a])" using s by simp
  have rt: "list_all isLetter (rev t)" using t by (simp add: list_all_iff)
  have nd: "\<not> isLetter (CHR ''.'')" using isLetter_not_dot by blast
  have tw: "takeWhile isLetter (rev s) = rev t"
    and dw: "dropWhile isLetter (rev s) = CHR ''.'' # rev m @ [a]"
    unfolding rs using run_then_rest[OF rt, of "CHR ''.'' # rev m @ [a]"] nd by auto
  have dotc: "isDomainChar (CHR ''.'')" by (simp add: isDomainChar_def)
  have tc: "list_all isDomainChar t"
    using t by (auto simp: list_all_iff isLetter_domainChar)
  have chars: "list_all isDomainChar s"
    using s m dotc tc isAlnum_domainChar[OF a] by simp
  show "isSimpleDomain s"
    unfolding isSimpleDomain_def Let_def tw dw using len chars a s by simp
qed

lemma isPlainDomain_hostName: "isPlainDomain s \<Longrightarrow> isHostName s \<and> CHR ''.'' \<in> set s"
proof -
  assume "isPlainDomain s"
  then obtain a m t where s: "s = a # m @ ''.'' @ t" and a: "isAlnum a"
    and m: "list_all isDomainChar m" and t: "list_all isLetter t" and len: "length t \<ge> 2"
    unfolding isPlainDomain_def by blast
  from len have tn: "t \<noteq> []" by auto
  then have t': "t = butlast t @ [last t]" by simp
  have z: "isAlnum (last t)" using t tn by (auto simp: list_all_iff isLetter_alnum)
  have dotc: "isDomainChar (CHR ''.'')" by (simp add: isDomainChar_def)
  have bt: "list_all isDomainChar (butlast t)"
    using t by (auto simp: list_all_iff isLetter_domainChar dest!: in_set_butlastD)
  have mid: "list_all isDomainChar (m @ ''.'' @ butlast t)"
    using m dotc bt by simp
  have "s = a # (m @ ''.'' @ butlast t) @ [last t]" using s t' by (metis append_assoc)
  with a mid z have "isHostName s" unfolding isHostName_def by blast
  moreover from s have "CHR ''.'' \<in> set s" by simp
  ultimately show ?thesis by simp
qed

lemma matchSimpleDomain_iff:
  "(matchSimpleDomain line = Some g) = (line = ''||'' @ g \<and> isPlainDomain g)"
proof
  assume m: "matchSimpleDomain line = Some g"
  then have sw: "startsWith line ''||''" and g: "g = drop 2 line"
    and sd: "isSimpleDomain (drop 2 line)"
    by (auto simp: matchSimpleDomain_def split: if_splits)
  from sw obtain t where "line = ''||'' @ t" by (auto simp: startsWith_iff)
  with g sd show "line = ''||'' @ g \<and> isPlainDomain g" by (simp add: isSimpleDomain_iff)
next
  assume "line = ''||'' @ g \<and> isPlainDomain g"
  then show "matchSimpleDomain line = Some g"
    by (simp add: matchSimpleDomain_def isSimpleDomain_iff)
qed

lemma afterHostsAddress_iff:
  "(afterHostsAddress line = Some rest) =
     (line = ''0.0.0.0'' @ rest \<or> line = ''127.0.0.1'' @ rest)"
proof
  assume h: "afterHostsAddress line = Some rest"
  show "line = ''0.0.0.0'' @ rest \<or> line = ''127.0.0.1'' @ rest"
  proof (cases "startsWith line ''0.0.0.0''")
    case True
    then obtain t where t: "line = ''0.0.0.0'' @ t" unfolding startsWith_iff by blast
    with h True show ?thesis by (simp add: afterHostsAddress_def)
  next
    case False
    with h have sw: "startsWith line ''127.0.0.1''" and r: "rest = drop 9 line"
      by (auto simp: afterHostsAddress_def split: if_splits)
    from sw obtain t where t: "line = ''127.0.0.1'' @ t" unfolding startsWith_iff by blast
    with r show ?thesis by simp
  qed
next
  assume "line = ''0.0.0.0'' @ rest \<or> line = ''127.0.0.1'' @ rest"
  then show "afterHostsAddress line = Some rest"
    by (auto simp: afterHostsAddress_def)
qed

lemma hostsMatch_iff:
  "(hostsMatch line = Some g) =
     (\<exists>addr ws. line = addr @ ws @ g \<and> (addr = ''0.0.0.0'' \<or> addr = ''127.0.0.1'') \<and>
                ws \<noteq> [] \<and> list_all isSpaceChar ws \<and> isHostName g)"
proof
  assume h: "hostsMatch line = Some g"
  then obtain rest where r: "afterHostsAddress line = Some rest"
    by (auto simp: hostsMatch_def split: option.splits)
  with h have g: "dropWhile isSpaceChar rest = g" and ws: "takeWhile isSpaceChar rest \<noteq> []"
    and run: "isHostLabelRun g"
    by (auto simp: hostsMatch_def Let_def split: if_splits)
  let ?ws = "takeWhile isSpaceChar rest"
  have "rest = ?ws @ g" using g by (metis takeWhile_dropWhile_id)
  moreover have "list_all isSpaceChar ?ws" by (auto simp: list_all_iff dest: set_takeWhileD)
  moreover from r have "line = ''0.0.0.0'' @ rest \<or> line = ''127.0.0.1'' @ rest"
    by (simp add: afterHostsAddress_iff)
  ultimately show "\<exists>addr ws. line = addr @ ws @ g \<and>
      (addr = ''0.0.0.0'' \<or> addr = ''127.0.0.1'') \<and>
      ws \<noteq> [] \<and> list_all isSpaceChar ws \<and> isHostName g"
    using ws run unfolding isHostLabelRun_iff by metis
next
  assume "\<exists>addr ws. line = addr @ ws @ g \<and> (addr = ''0.0.0.0'' \<or> addr = ''127.0.0.1'') \<and>
                ws \<noteq> [] \<and> list_all isSpaceChar ws \<and> isHostName g"
  then obtain addr ws where l: "line = addr @ ws @ g"
    and addr: "addr = ''0.0.0.0'' \<or> addr = ''127.0.0.1''"
    and ws: "ws \<noteq> []" "list_all isSpaceChar ws" and h: "isHostName g" by blast
  from l addr have r: "afterHostsAddress line = Some (ws @ g)"
    unfolding afterHostsAddress_iff by blast
  from h have "g \<noteq> []" "isDomainChar (hd g)"
    using isHostName_ends[OF h] by (auto simp: isAlnum_domainChar)
  then have "g = [] \<or> \<not> isSpaceChar (hd g)" using domainChar_not_special by blast
  from run_then_rest[OF ws(2) this]
  have "takeWhile isSpaceChar (ws @ g) = ws" "dropWhile isSpaceChar (ws @ g) = g" .
  with r ws h show "hostsMatch line = Some g"
    by (simp add: hostsMatch_def Let_def isHostLabelRun_iff)
qed

lemma set_addDomain: "set (addDomain d ds) = insert d (set ds)"
  by (auto simp: addDomain_def)

lemma includesStr_head_in_set: "includesStr s (c # sub) \<Longrightarrow> c \<in> set s"
  by (induction s) auto

lemma no_hash_no_hiding: "CHR ''#'' \<notin> set line \<Longrightarrow> \<not> hasElementHiding line"
  unfolding hasElementHiding_def by (auto dest: includesStr_head_in_set)

lemma star_not_in_lower:
  assumes "list_all isDomainChar g"
  shows "\<not> includesStr (toLowerCase g) ''*''"
proof -
  have "\<forall>c\<in>set (toLowerCase g). isDomainChar c"
    using assms by (auto simp: toLowerCase_def list_all_iff domainChar_toLowerChar)
  then have "CHR ''*'' \<notin> set (toLowerCase g)" using domainChar_not_special by blast
  then show ?thesis by (simp add: includesStr_single)
qed

lemma dot_in_lower: "includesStr (toLowerCase g) ''.'' = (CHR ''.'' \<in> set g)"
  by (simp add: includesStr_single dot_in_toLowerCase)

lemma run_unique:
  assumes "g @ r = g' @ r'" "list_all P g" "list_all P g'"
    "r = [] \<or> \<not> P (hd r)" "r' = [] \<or> \<not> P (hd r')"
  shows "g = g'"
  using run_then_rest(1)[OF assms(2,4)] run_then_rest(1)[OF assms(3,5)] assms(1) by simp

lemma easyListLine_cases:
  "easyListLine ds raw = ds \<or>
   (\<exists>g. isDomainRule (trim raw) g \<and> easyListLine ds raw = addDomain (toLowerCase g) ds)"
proof -
  let ?line = "trim raw"
  show ?thesis
  proof (cases "?line = [] \<or> startsWith ?line ''!'' \<or> startsWith ?line ''['' \<or>
                startsWith ?line ''@@'' \<or> hasElementHiding ?line \<or>
                (startsWith ?line ''/'' \<and> endsWith ?line ''/'')")
    case True
    then have "easyListLine ds raw = ds"
      by (auto simp: easyListLine_def Let_def hasElementHiding_def)
    then show ?thesis ..
  next
    case False
    then have nh: "\<not> hasElementHiding ?line" by simp
    from False have eq: "easyListLine ds raw =
        (case matchDomainBlock ?line of
           Some g \<Rightarrow>
             (if \<not> includesStr (toLowerCase g) ''*'' \<and> includesStr (toLowerCase g) ''.''
              then addDomain (toLowerCase g) ds else ds)
         | None \<Rightarrow>
             (case matchSimpleDomain ?line of
                Some g \<Rightarrow>
                  (if \<not> includesStr (toLowerCase g) ''*'' then addDomain (toLowerCase g) ds
                   else ds)
              | None \<Rightarrow>
                  (case matchDomainWithOptions ?line of
                     Some g \<Rightarrow>
                       (if \<not> includesStr (toLowerCase g) ''*'' \<and>
                           includesStr (toLowerCase g) ''.''
                        then addDomain (toLowerCase g) ds else ds)
                   | None \<Rightarrow> ds)))"
      by (auto simp: easyListLine_def Let_def hasElementHiding_def split: option.splits)
    show ?thesis
    proof (cases "matchDomainBlock ?line")
      case (Some g)
      then obtain c rest where l: "?line = ''||'' @ g @ c # rest" and h: "isHostName g"
        and c: "c = CHR ''^'' \<or> c = CHR ''/'' \<or> c = CHR ''$''"
        unfolding matchDomainBlock_iff by blast
      show ?thesis
      proof (cases "CHR ''.'' \<in> set g")
        case True
        with h nh l c have "isDomainRule ?line g" unfolding isDomainRule_def by blast
        moreover have "easyListLine ds raw = addDomain (toLowerCase g) ds"
          unfolding eq Some using True star_not_in_lower[OF isHostName_chars[OF h]]
          by (simp add: dot_in_lower)
        ultimately show ?thesis by blast
      next
        case False
        then have "easyListLine ds raw = ds" unfolding eq Some by (simp add: dot_in_lower)
        then show ?thesis ..
      qed
    next
      case None
      note blockNone = None
      show ?thesis
      proof (cases "matchSimpleDomain ?line")
        case (Some g)
        then have l: "?line = ''||'' @ g" and p: "isPlainDomain g"
          unfolding matchSimpleDomain_iff by auto
        from isPlainDomain_hostName[OF p] have h: "isHostName g" and d: "CHR ''.'' \<in> set g"
          by auto
        from h d nh l p have "isDomainRule ?line g" unfolding isDomainRule_def by blast
        moreover have "easyListLine ds raw = addDomain (toLowerCase g) ds"
          unfolding eq blockNone Some using star_not_in_lower[OF isHostName_chars[OF h]]
          by simp
        ultimately show ?thesis by blast
      next
        case None
        note simpleNone = None
        show ?thesis
        proof (cases "matchDomainWithOptions ?line")
          case None
          then have "easyListLine ds raw = ds" unfolding eq blockNone simpleNone by simp
          then show ?thesis ..
        next
          case (Some g)
          then obtain rest where "?line = ''||'' @ g @ CHR ''$'' # rest" and "isHostName g"
            unfolding matchDomainWithOptions_iff by blast
          then have "matchDomainBlock ?line = Some g" unfolding matchDomainBlock_iff by blast
          with blockNone show ?thesis by simp
        qed
      qed
    qed
  qed
qed

lemma easyListLine_listed:
  assumes "isListedDomainRule (trim raw) g"
  shows "easyListLine ds raw = addDomain (toLowerCase g) ds"
proof -
  let ?line = "trim raw"
  from assms have h: "isHostName g" and d: "CHR ''.'' \<in> set g" and nh: "\<not> hasElementHiding ?line"
    and shape: "?line = ''||'' @ g @ ''^'' \<or> ?line = ''||'' @ g @ ''/'' \<or>
                (\<exists>opts. ?line = ''||'' @ g @ ''$'' @ opts) \<or>
                (\<exists>opts. ?line = ''||'' @ g @ ''^$'' @ opts) \<or>
                (?line = ''||'' @ g \<and> isPlainDomain g)"
    unfolding isListedDomainRule_def by auto
  from shape obtain t where t: "?line = ''||'' @ t" by auto
  then have skip: "?line \<noteq> []" "\<not> startsWith ?line ''!''" "\<not> startsWith ?line ''[''"
    "\<not> startsWith ?line ''@@''" "\<not> startsWith ?line ''/''"
    by auto
  have star: "\<not> includesStr (toLowerCase g) ''*''"
    by (rule star_not_in_lower[OF isHostName_chars[OF h]])
  have dot: "includesStr (toLowerCase g) ''.''" using d by (simp add: dot_in_lower)
  from shape consider
      (sep) c rest where "?line = ''||'' @ g @ c # rest"
        "c = CHR ''^'' \<or> c = CHR ''/'' \<or> c = CHR ''$''"
    | (bare) "?line = ''||'' @ g" "isPlainDomain g"
    by auto
  then show ?thesis
  proof cases
    case sep
    with h have "matchDomainBlock ?line = Some g" unfolding matchDomainBlock_iff by blast
    with skip nh star dot show ?thesis
      by (simp add: easyListLine_def Let_def hasElementHiding_def)
  next
    case bare
    have "matchDomainBlock ?line = None"
    proof (cases "matchDomainBlock ?line")
      case None
      then show ?thesis .
    next
      case (Some g')
      then obtain c rest where l: "?line = ''||'' @ g' @ c # rest"
        and c: "c = CHR ''^'' \<or> c = CHR ''/'' \<or> c = CHR ''$''"
        unfolding matchDomainBlock_iff by blast
      from l bare(1) have "g = g' @ c # rest" by simp
      then have "c \<in> set g" by simp
      with isHostName_chars[OF h] have "isDomainChar c" by (simp add: list_all_iff)
      with c show ?thesis using domainChar_not_special by blast
    qed
    moreover from bare have "matchSimpleDomain ?line = Some g"
      unfolding matchSimpleDomain_iff by simp
    ultimately show ?thesis using skip nh star
      by (simp add: easyListLine_def Let_def hasElementHiding_def)
  qed
qed

lemma isHostsEntry_iff:
  "isHostsEntry line g =
     (hostsMatch line = Some g \<and> CHR ''.'' \<in> set g \<and> toLowerCase g \<noteq> ''localhost'' \<and>
      toLowerCase g \<noteq> ''localhost.localdomain'')"
  unfolding isHostsEntry_def hostsMatch_iff by blast

lemma hostsLine_entry:
  assumes "isHostsEntry (trim raw) g"
  shows "hostsLine ds raw = addDomain (toLowerCase g) ds"
proof -
  let ?line = "trim raw"
  from assms have m: "hostsMatch ?line = Some g" and d: "CHR ''.'' \<in> set g"
    and nl: "toLowerCase g \<noteq> ''localhost''" "toLowerCase g \<noteq> ''localhost.localdomain''"
    unfolding isHostsEntry_iff by auto
  from m obtain rest where "afterHostsAddress ?line = Some rest"
    by (auto simp: hostsMatch_def split: option.splits)
  then have "?line = ''0.0.0.0'' @ rest \<or> ?line = ''127.0.0.1'' @ rest"
    unfolding afterHostsAddress_iff .
  then have "?line \<noteq> []" "\<not> startsWith ?line ''#''" by auto
  with m d nl show ?thesis by (simp add: hostsLine_def Let_def dot_in_lower)
qed

lemma hostsLine_other:
  assumes "\<not> (\<exists>g. isHostsEntry (trim raw) g)"
  shows "hostsLine ds raw = ds"
proof (cases "hostsMatch (trim raw)")
  case None
  then show ?thesis by (simp add: hostsLine_def Let_def)
next
  case (Some g)
  with assms have "\<not> (CHR ''.'' \<in> set g \<and> toLowerCase g \<noteq> ''localhost'' \<and>
                     toLowerCase g \<noteq> ''localhost.localdomain'')"
    unfolding isHostsEntry_iff by blast
  with Some show ?thesis by (auto simp: hostsLine_def Let_def dot_in_lower)
qed

lemma domainsLine_plain:
  assumes "isPlainDomain (trim raw)"
  shows "domainsLine ds raw = addDomain (toLowerCase (trim raw)) ds"
proof -
  let ?line = "trim raw"
  from isPlainDomain_hostName[OF assms] have h: "isHostName ?line" by simp
  note ends = isHostName_ends[OF h]
  note chars = isHostName_chars[OF h]
  from ends obtain a t where l: "?line = a # t" and a: "isAlnum a" by (cases ?line) auto
  from domainChar_not_special[OF isAlnum_domainChar[OF a]]
  have "a \<noteq> CHR ''#''" "a \<noteq> CHR ''|''" by auto
  moreover have "a \<noteq> CHR ''!''" "a \<noteq> CHR ''@''"
    using domainChar_code[OF isAlnum_domainChar[OF a]] by auto
  ultimately have skip: "?line \<noteq> []" "\<not> startsWith ?line ''#''" "\<not> startsWith ?line ''!''"
    "\<not> startsWith ?line ''||''" "\<not> startsWith ?line ''@@''"
    using l by auto
  have "CHR ''#'' \<notin> set ?line"
    using chars domainChar_not_special by (auto simp: list_all_iff)
  then have "\<not> includesStr ?line ''##''" by (auto dest: includesStr_head_in_set)
  with skip assms show ?thesis by (simp add: domainsLine_def Let_def isSimpleDomain_iff)
qed

lemma domainsLine_other: "\<not> isPlainDomain (trim raw) \<Longrightarrow> domainsLine ds raw = ds"
  by (simp add: domainsLine_def Let_def isSimpleDomain_iff)

lemma foldl_lines_sound:
  assumes step: "\<And>ds l. f ds l = ds \<or> (\<exists>d. S l d \<and> f ds l = addDomain d ds)"
  shows "d \<in> set (foldl f acc ls) \<Longrightarrow> d \<in> set acc \<or> (\<exists>l\<in>set ls. S l d)"
proof (induction ls arbitrary: acc)
  case Nil
  then show ?case by simp
next
  case (Cons l ls)
  from Cons.prems have "d \<in> set (foldl f (f acc l) ls)" by simp
  from Cons.IH[OF this] have "d \<in> set (f acc l) \<or> (\<exists>l\<in>set ls. S l d)" .
  moreover have "d \<in> set (f acc l) \<Longrightarrow> d \<in> set acc \<or> S l d"
    using step[of acc l] by (auto simp: set_addDomain)
  ultimately show ?case by auto
qed

lemma foldl_lines_complete:
  assumes mono: "\<And>ds l. set ds \<subseteq> set (f ds l)"
      and step: "\<And>ds. d \<in> set (f ds l)"
      and mem: "l \<in> set ls"
  shows "d \<in> set (foldl f acc ls)"
proof -
  have keep: "x \<in> set a \<Longrightarrow> x \<in> set (foldl f a ks)" for x a ks
  proof (induction ks arbitrary: a)
    case Nil
    then show ?case by simp
  next
    case (Cons k ks)
    from Cons.prems mono[of a k] have "x \<in> set (f a k)" by auto
    from Cons.IH[OF this] show ?case by simp
  qed
  from mem obtain xs ys where "ls = xs @ l # ys" by (auto simp: in_set_conv_decomp)
  then have "foldl f acc ls = foldl f (f (foldl f acc xs) l) ys" by simp
  with keep[OF step] show ?thesis by simp
qed

lemma hostsLine_cases:
  "hostsLine ds l = ds \<or>
   (\<exists>d. (\<exists>g. isHostsEntry (trim l) g \<and> d = toLowerCase g) \<and> hostsLine ds l = addDomain d ds)"
proof (cases "\<exists>g. isHostsEntry (trim l) g")
  case True
  then obtain g where g: "isHostsEntry (trim l) g" by blast
  from hostsLine_entry[OF g, of ds] g show ?thesis by blast
next
  case False
  from hostsLine_other[OF False, of ds] show ?thesis by simp
qed

lemma domainsLine_cases:
  "domainsLine ds l = ds \<or>
   (\<exists>d. (isPlainDomain (trim l) \<and> d = toLowerCase (trim l)) \<and> domainsLine ds l = addDomain d ds)"
proof (cases "isPlainDomain (trim l)")
  case True
  from domainsLine_plain[OF True, of ds] True show ?thesis by blast
next
  case False
  from domainsLine_other[OF False, of ds] show ?thesis by simp
qed

lemma newline_not_in_literals:
  "newline \<notin> set ''||''" "newline \<notin> set ''^''" "newline \<notin> set ''0.0.0.0 ''"
  by code_simp+

lemma parseEasyListFormat_sound:
  assumes "d \<in> set (parseEasyListFormat content)"
  shows "\<exists>raw\<in>set (splitOn newline content). \<exists>g. isDomainRule (trim raw) g \<and> d = toLowerCase g"
proof -
  have step: "easyListLine ds l = ds \<or>
              (\<exists>d. (\<exists>g. isDomainRule (trim l) g \<and> d = toLowerCase g) \<and>
                   easyListLine ds l = addDomain d ds)" for ds l
    using easyListLine_cases[of ds l] by blast
  from foldl_lines_sound[of easyListLine "\<lambda>l d. \<exists>g. isDomainRule (trim l) g \<and> d = toLowerCase g",
      OF step, of d "[]" "splitOn newline content"] assms
  show ?thesis by (simp add: parseEasyListFormat_def)
qed

lemma parseEasyListFormat_complete:
  assumes "raw \<in> set (splitOn newline content)" and "isListedDomainRule (trim raw) g"
  shows "toLowerCase g \<in> set (parseEasyListFormat content)"
proof -
  have mono: "set ds \<subseteq> set (easyListLine ds l)" for ds l
    using easyListLine_cases[of ds l] by (auto simp: set_addDomain)
  have step: "toLowerCase g \<in> set (easyListLine ds raw)" for ds
    by (simp add: easyListLine_listed[OF assms(2)] set_addDomain)
  show ?thesis
    unfolding parseEasyListFormat_def
    by (rule foldl_lines_complete[of easyListLine, OF mono step assms(1)])
qed

lemma parseHostsFormat_iff:
  "(d \<in> set (parseHostsFormat content)) =
     (\<exists>raw\<in>set (splitOn newline content). \<exists>g. isHostsEntry (trim raw) g \<and> d = toLowerCase g)"
proof
  assume a: "d \<in> set (parseHostsFormat content)"
  have step: "hostsLine ds l = ds \<or>
              (\<exists>d. (\<exists>g. isHostsEntry (trim l) g \<and> d = toLowerCase g) \<and>
                   hostsLine ds l = addDomain d ds)" for ds l
    by (rule hostsLine_cases)
  from foldl_lines_sound[of hostsLine "\<lambda>l d. \<exists>g. isHostsEntry (trim l) g \<and> d = toLowerCase g",
      OF step, of d "[]" "splitOn newline content"] a
  show "\<exists>raw\<in>set (splitOn newline content). \<exists>g. isHostsEntry (trim raw) g \<and> d = toLowerCase g"
    by (simp add: parseHostsFormat_def)
next
  assume "\<exists>raw\<in>set (splitOn newline content). \<exists>g. isHostsEntry (trim raw) g \<and> d = toLowerCase g"
  then obtain raw g where mem: "raw \<in> set (splitOn newline content)"
    and e: "isHostsEntry (trim raw) g" and d: "d = toLowerCase g" by blast
  have mono: "set ds \<subseteq> set (hostsLine ds l)" for ds l
    using hostsLine_cases[of ds l] by (auto simp: set_addDomain)
  have step: "d \<in> set (hostsLine ds raw)" for ds
    by (simp add: hostsLine_entry[OF e] set_addDomain d)
  show "d \<in> set (parseHostsFormat content)"
    unfolding parseHostsFormat_def
    by (rule foldl_lines_complete[of hostsLine, OF mono step mem])
qed

lemma parseDomainsFormat_iff:
  "(d \<in> set (parseDomainsFormat content)) =
     (\<exists>raw\<in>set (splitOn newline content). isPlainDomain (trim raw) \<and> d = toLowerCase (trim raw))"
proof
  assume a: "d \<in> set (parseDomainsFormat content)"
  have step: "domainsLine ds l = ds \<or>
              (\<exists>d. (isPlainDomain (trim l) \<and> d = toLowerCase (trim l)) \<and>
                   domainsLine ds l = addDomain d ds)" for ds l
    by (rule domainsLine_cases)
  from foldl_lines_sound[of domainsLine "\<lambda>l d. isPlainDomain (trim l) \<and> d = toLowerCase (trim l)",
      OF step, of d "[]" "splitOn newline content"] a
  show "\<exists>raw\<in>set (splitOn newline content). isPlainDomain (trim raw) \<and> d = toLowerCase (trim raw)"
    by (simp add: parseDomainsFormat_def)
next
  assume "\<exists>raw\<in>set (splitOn newline content). isPlainDomain (trim raw) \<and> d = toLowerCase (trim raw)"
  then obtain raw where mem: "raw \<in> set (splitOn newline content)"
    and e: "isPlainDomain (trim raw)" and d: "d = toLowerCase (trim raw)" by blast
  have mono: "set ds \<subseteq> set (domainsLine ds l)" for ds l
    using domainsLine_cases[of ds l] by (auto simp: set_addDomain)
  have step: "d \<in> set (domainsLine ds raw)" for ds
    by (simp add: domainsLine_plain[OF e] set_addDomain d)
  show "d \<in> set (parseDomainsFormat content)"
    unfolding parseDomainsFormat_def
    by (rule foldl_lines_complete[of domainsLine, OF mono step mem])
qed

lemma splitOn_single: "sep \<notin> set s \<Longrightarrow> splitOn sep s = [s]"
  by (induction s) auto

lemma trim_id: "s \<noteq> [] \<Longrightarrow> \<not> isSpaceChar (hd s) \<Longrightarrow> \<not> isSpaceChar (last s) \<Longrightarrow> trim s = s"
proof -
  assume s: "s \<noteq> []" and h: "\<not> isSpaceChar (hd s)" and l: "\<not> isSpaceChar (last s)"
  from s h have a: "dropWhile isSpaceChar s = s" by (cases s) auto
  from s l have "\<not> isSpaceChar (hd (rev s))" by (simp add: hd_rev)
  with s have b: "dropWhile isSpaceChar (rev s) = rev s" by (cases "rev s") auto
  show "trim s = s" by (simp add: trim_def a b)
qed

lemma hostName_line:
  assumes h: "isHostName g"
      and p: "newline \<notin> set p" "CHR ''#'' \<notin> set p" "p = [] \<or> \<not> isSpaceChar (hd p)"
  shows "splitOn newline (p @ g) = [p @ g]" and "trim (p @ g) = p @ g"
    and "\<not> hasElementHiding (p @ g)"
proof -
  note ends = isHostName_ends[OF h]
  have chars: "\<forall>c\<in>set g. isDomainChar c" using isHostName_chars[OF h] by (simp add: list_all_iff)
  then have g: "newline \<notin> set g" "CHR ''#'' \<notin> set g" using domainChar_not_special by blast+
  with p show "splitOn newline (p @ g) = [p @ g]" by (simp add: splitOn_single)
  from g p show "\<not> hasElementHiding (p @ g)" by (simp add: no_hash_no_hiding)
  from ends have ne: "p @ g \<noteq> []" by simp
  have hd: "\<not> isSpaceChar (hd (p @ g))"
  proof (cases p)
    case Nil
    with ends show ?thesis
      using domainChar_not_special[OF isAlnum_domainChar, of "hd g"] by simp
  next
    case (Cons a q)
    with p(3) show ?thesis by simp
  qed
  have "last (p @ g) = last g" using ends by simp
  then have "\<not> isSpaceChar (last (p @ g))"
    using ends domainChar_not_special[OF isAlnum_domainChar, of "last g"] by simp
  from trim_id[OF ne hd this] show "trim (p @ g) = p @ g" .
qed

lemma single_rule_easylist:
  assumes h: "isHostName g" and d: "CHR ''.'' \<in> set g"
  shows "parseEasyListFormat (''||'' @ g @ ''^'') = [toLowerCase g]"
proof -
  let ?c = "''||'' @ g @ ''^''"
  have chars: "\<forall>c\<in>set g. isDomainChar c" using isHostName_chars[OF h] by (simp add: list_all_iff)
  then have g: "newline \<notin> set g" "CHR ''#'' \<notin> set g" using domainChar_not_special by blast+
  have nl: "newline \<notin> set ?c" using g newline_not_in_literals by simp
  have nh: "\<not> hasElementHiding ?c" using g by (simp add: no_hash_no_hiding)
  have "last ?c = CHR ''^''" by simp
  then have "\<not> isSpaceChar (last ?c)" by (simp add: isSpaceChar_def)
  moreover have "\<not> isSpaceChar (hd ?c)" by (simp add: isSpaceChar_def)
  ultimately have tr: "trim ?c = ?c" by (intro trim_id) simp_all
  have "isListedDomainRule (trim ?c) g"
    unfolding tr isListedDomainRule_def using h d nh by simp
  from easyListLine_listed[OF this, of "[]"]
  have a: "easyListLine [] ?c = [toLowerCase g]" by (simp add: addDomain_def)
  have b: "parseEasyListFormat ?c = easyListLine [] ?c"
    unfolding parseEasyListFormat_def splitOn_single[OF nl] by simp
  show ?thesis by (rule trans[OF b a])
qed

lemma single_rule_hosts:
  assumes h: "isHostName g" and d: "CHR ''.'' \<in> set g"
    and nl: "toLowerCase g \<noteq> ''localhost''" "toLowerCase g \<noteq> ''localhost.localdomain''"
  shows "parseHostsFormat (''0.0.0.0 '' @ g) = [toLowerCase g]"
proof -
  let ?c = "''0.0.0.0 '' @ g"
  have p1: "newline \<notin> set ''0.0.0.0 ''" by (rule newline_not_in_literals)
  have p2: "CHR ''#'' \<notin> set ''0.0.0.0 ''" by simp
  have p3: "''0.0.0.0 '' = [] \<or> \<not> isSpaceChar (hd ''0.0.0.0 '')"
    by (simp add: isSpaceChar_def)
  note p = p1 p2 p3
  note line = hostName_line[OF h p]
  have "?c = ''0.0.0.0'' @ '' '' @ g" by simp
  moreover have "list_all isSpaceChar '' ''" by (simp add: isSpaceChar_def)
  ultimately have "isHostsEntry ?c g"
    unfolding isHostsEntry_def using h d nl by blast
  then have "isHostsEntry (trim ?c) g" unfolding line(2) .
  from hostsLine_entry[OF this, of "[]"]
  have a: "hostsLine [] ?c = [toLowerCase g]" by (simp add: addDomain_def)
  have b: "parseHostsFormat ?c = hostsLine [] ?c"
    unfolding parseHostsFormat_def line(1) by simp
  show ?thesis by (rule trans[OF b a])
qed

lemma single_rule_domains:
  assumes p: "isPlainDomain g"
  shows "parseDomainsFormat g = [toLowerCase g]"
proof -
  from isPlainDomain_hostName[OF p] have h: "isHostName g" by simp
  have e: "newline \<notin> set []" "CHR ''#'' \<notin> set []" "[] = [] \<or> \<not> isSpaceChar (hd [])"
    by simp_all
  from hostName_line[OF h e] have sp: "splitOn newline g = [g]" and tr: "trim g = g" by simp_all
  from p have "isPlainDomain (trim g)" unfolding tr .
  from domainsLine_plain[OF this, of "[]"] show ?thesis
    by (simp add: parseDomainsFormat_def sp tr addDomain_def)
qed

lemma toLowerCase_www: "toLowerCase (''www.'' @ h) = ''www.'' @ toLowerCase h"
  by (simp add: toLowerCase_def toLowerChar_def)

lemma www_not_localhost:
  "''www.'' @ s \<noteq> ''localhost'' \<and> ''www.'' @ s \<noteq> ''localhost.localdomain''"
  by simp

lemma auto_detect_is_one_parser:
  "parseBlocklistContent content None = parseBlocklistContent content (Some Easylist) \<or>
   parseBlocklistContent content None = parseBlocklistContent content (Some Hosts) \<or>
   parseBlocklistContent content None = parseBlocklistContent content (Some Domains)"
  by (simp add: parseBlocklistContent_def Let_def)

text \<open>
  C7.  For every input and every format hint, the parser returns a list: no domain
  occurs twice in it and every domain is in lower case.  Lines that are no rule of the
  format are skipped: under the EasyList and AdGuard formats (the same parser) every
  domain of the output is the lower-cased host name of a domain rule on some line, and
  each listed domain rule does put its host name in the output; under the hosts
  format the output is exactly the lower-cased host names of the hosts entries, under
  the domains format exactly the lower-cased lines that are plain domains; and
  auto-detection returns what one of these three parsers returns.  A \<open>www.\<close> prefix is
  never removed: \<open>||www.h^\<close>, \<open>0.0.0.0 www.h\<close> and the line \<open>www.h\<close> each yield \<open>www.h\<close> in lower
  case, and \<open>||www.example.com^\<close> yields \<open>www.example.com\<close> under the EasyList and AdGuard
  formats and under auto-detection (and nothing under the other two formats, which
  skip the line).
\<close>

theorem parser_output_lowercase_distinct:
  "distinct (parseBlocklistContent content formatHint) \<and>
   (\<forall>d\<in>set (parseBlocklistContent content formatHint).
      toLowerCase d = d \<and> (\<forall>c\<in>set d. \<not> isUpperLetter c)) \<and>
   (d \<in> set (parseBlocklistContent content (Some Easylist)) \<longrightarrow>
      (\<exists>raw\<in>set (splitOn newline content). \<exists>g. isDomainRule (trim raw) g \<and> d = toLowerCase g)) \<and>
   (raw \<in> set (splitOn newline content) \<and> isListedDomainRule (trim raw) g \<longrightarrow>
      toLowerCase g \<in> set (parseBlocklistContent content (Some Easylist))) \<and>
   parseBlocklistContent content (Some Adguard) = parseBlocklistContent content (Some Easylist) \<and>
   (d \<in> set (parseBlocklistContent content (Some Hosts))) =
      (\<exists>raw\<in>set (splitOn newline content). \<exists>g. isHostsEntry (trim raw) g \<and> d = toLowerCase g) \<and>
   (d \<in> set (parseBlocklistContent content (Some Domains))) =
      (\<exists>raw\<in>set (splitOn newline content). isPlainDomain (trim raw) \<and> d = toLowerCase (trim raw)) \<and>
   (parseBlocklistContent content None = parseBlocklistContent content (Some Easylist) \<or>
    parseBlocklistContent content None = parseBlocklistContent content (Some Hosts) \<or>
    parseBlocklistContent content None = parseBlocklistContent content (Some Domains)) \<and>
   (isHostName (''www.'' @ h) \<longrightarrow>
      parseBlocklistContent (''||www.'' @ h @ ''^'') (Some Easylist) = [''www.'' @ toLowerCase h] \<and>
      parseBlocklistContent (''0.0.0.0 www.'' @ h) (Some Hosts) = [''www.'' @ toLowerCase h]) \<and>
   (isPlainDomain (''www.'' @ h) \<longrightarrow>
      parseBlocklistContent (''www.'' @ h) (Some Domains) = [''www.'' @ toLowerCase h]) \<and>
   parseBlocklistContent ''||www.example.com^'' formatHint =
     (if formatHint = Some Domains \<or> formatHint = Some Hosts then [] else [''www.example.com''])"
proof (intro conjI impI)
  have pe: "parseBlocklistContent c (Some Easylist) = parseEasyListFormat c" for c
    by (simp add: parseBlocklistContent_def)
  have ph: "parseBlocklistContent c (Some Hosts) = parseHostsFormat c" for c
    by (simp add: parseBlocklistContent_def)
  have pd: "parseBlocklistContent c (Some Domains) = parseDomainsFormat c" for c
    by (simp add: parseBlocklistContent_def)
  from lowerDistinct_parseBlocklistContent[of content formatHint]
  show "distinct (parseBlocklistContent content formatHint)"
    and "\<forall>d\<in>set (parseBlocklistContent content formatHint).
           toLowerCase d = d \<and> (\<forall>c\<in>set d. \<not> isUpperLetter c)"
    by (auto simp: lowerDistinct_def toLowerCase_fixed)
  show "\<exists>raw\<in>set (splitOn newline content). \<exists>g. isDomainRule (trim raw) g \<and> d = toLowerCase g"
    if "d \<in> set (parseBlocklistContent content (Some Easylist))"
    using that unfolding pe by (rule parseEasyListFormat_sound)
  show "toLowerCase g \<in> set (parseBlocklistContent content (Some Easylist))"
    if "raw \<in> set (splitOn newline content) \<and> isListedDomainRule (trim raw) g"
    unfolding pe using that by (auto intro: parseEasyListFormat_complete)
  show "parseBlocklistContent content (Some Adguard) = parseBlocklistContent content (Some Easylist)"
    by (simp add: parseBlocklistContent_def parseAdGuardFormat_def)
  show "(d \<in> set (parseBlocklistContent content (Some Hosts))) =
      (\<exists>raw\<in>set (splitOn newline content). \<exists>g. isHostsEntry (trim raw) g \<and> d = toLowerCase g)"
    unfolding ph by (rule parseHostsFormat_iff)
  show "(d \<in> set (parseBlocklistContent content (Some Domains))) =
      (\<exists>raw\<in>set (splitOn newline content). isPlainDomain (trim raw) \<and> d = toLowerCase (trim raw))"
    unfolding pd by (rule parseDomainsFormat_iff)
  show "parseBlocklistContent content None = parseBlocklistContent content (Some Easylist) \<or>
    parseBlocklistContent content None = parseBlocklistContent content (Some Hosts) \<or>
    parseBlocklistContent content None = parseBlocklistContent content (Some Domains)"
    by (rule auto_detect_is_one_parser)
  have dot: "CHR ''.'' \<in> set (''www.'' @ h)" by simp
  have low: "toLowerCase (''www.'' @ h) = ''www.'' @ toLowerCase h" by (rule toLowerCase_www)
  have ce: "''||www.'' @ h @ ''^'' = ''||'' @ (''www.'' @ h) @ ''^''" by simp
  have ch: "''0.0.0.0 www.'' @ h = ''0.0.0.0 '' @ (''www.'' @ h)" by simp
  show "parseBlocklistContent (''||www.'' @ h @ ''^'') (Some Easylist) = [''www.'' @ toLowerCase h]"
    if w: "isHostName (''www.'' @ h)"
    unfolding pe ce single_rule_easylist[OF w dot] low ..
  show "parseBlocklistContent (''0.0.0.0 www.'' @ h) (Some Hosts) = [''www.'' @ toLowerCase h]"
    if w: "isHostName (''www.'' @ h)"
  proof -
    have nl: "toLowerCase (''www.'' @ h) \<noteq> ''localhost''"
      "toLowerCase (''www.'' @ h) \<noteq> ''localhost.localdomain''"
      unfolding low using www_not_localhost[of "toLowerCase h"] by blast+
    show ?thesis unfolding ph ch single_rule_hosts[OF w dot nl] low ..
  qed
  show "parseBlocklistContent (''www.'' @ h) (Some Domains) = [''www.'' @ toLowerCase h]"
    if w: "isPlainDomain (''www.'' @ h)"
    unfolding pd single_rule_domains[OF w] low ..
  have n: "parseBlocklistContent ''||www.example.com^'' None = [''www.example.com'']"
    by code_simp
  have e: "parseBlocklistContent ''||www.example.com^'' (Some Easylist) = [''www.example.com'']"
    by code_simp
  have a: "parseBlocklistContent ''||www.example.com^'' (Some Adguard) = [''www.example.com'']"
    by code_simp
  have d: "parseBlocklistContent ''||www.example.com^'' (Some Domains) = []" by code_simp
  have h: "parseBlocklistContent ''||www.example.com^'' (Some Hosts) = []" by code_simp
  show "parseBlocklistContent ''||www.example.com^'' formatHint =
     (if formatHint = Some Domains \<or> formatHint = Some Hosts then [] else [''www.example.com''])"
  proof (cases formatHint)
    case None
    with n show ?thesis by simp
  next
    case (Some f)
    with e a d h show ?thesis by (cases f) simp_all
  qed
qed

text \<open>
  A list with a header, the same domain twice in different case, a bare rule, a line
  that is no rule and an exception rule; and the three single-line lists with a
  \<open>www.\<close> host.
\<close>

theorem parser_output_lowercase_distinct_witness:
  "parseBlocklistContent sampleList (Some Easylist) = [''ads.example.com'', ''tracker.net''] \<and>
   distinct (parseBlocklistContent sampleList (Some Easylist)) \<and>
   list_all (\<lambda>d. toLowerCase d = d) (parseBlocklistContent sampleList (Some Easylist)) \<and>
   ''||tracker.net'' \<in> set (splitOn newline sampleList) \<and>
   isListedDomainRule (trim ''||tracker.net'') ''tracker.net'' \<and>
   ''tracker.net'' \<in> set (parseBlocklistContent sampleList (Some Easylist)) \<and>
   (\<exists>raw\<in>set (splitOn newline sampleList).
      \<exists>g. isDomainRule (trim raw) g \<and> ''tracker.net'' = toLowerCase g) \<and>
   ''not a rule'' \<in> set (splitOn newline sampleList) \<and>
   ''not a rule'' \<notin> set (parseBlocklistContent sampleList (Some Easylist)) \<and>
   isHostName ''www.example.com'' \<and>
   parseBlocklistContent ''||www.example.com^'' (Some Easylist) = [''www.example.com''] \<and>
   parseBlocklistContent ''0.0.0.0 www.example.com'' (Some Hosts) = [''www.example.com''] \<and>
   isPlainDomain ''www.example.com'' \<and>
   parseBlocklistContent ''www.example.com'' (Some Domains) = [''www.example.com''] \<and>
   parseBlocklistContent sampleList None = [''ads.example.com'', ''tracker.net'']"
proof -
  have vn: "parseBlocklistContent sampleList None = [''ads.example.com'', ''tracker.net'']"
    by code_simp
  note t = parser_output_lowercase_distinct[where content = sampleList
      and formatHint = "Some Easylist" and d = "''tracker.net''" and raw = "''||tracker.net''"
      and g = "''tracker.net''" and h = "''example.com''"]
  have v: "parseBlocklistContent sampleList (Some Easylist) = [''ads.example.com'', ''tracker.net'']"
    by code_simp
  from t have dl: "distinct (parseBlocklistContent sampleList (Some Easylist))"
    by (rule conjunct1)
  from t have "\<forall>d\<in>set (parseBlocklistContent sampleList (Some Easylist)).
      toLowerCase d = d \<and> (\<forall>c\<in>set d. \<not> isUpperLetter c)"
    by (elim conjE)
  then have lo: "list_all (\<lambda>d. toLowerCase d = d) (parseBlocklistContent sampleList (Some Easylist))"
    unfolding list_all_iff by blast
  have mem: "''||tracker.net'' \<in> set (splitOn newline sampleList)" by code_simp
  have tr: "trim ''||tracker.net'' = ''||tracker.net''" by code_simp
  have "isHostLabelRun ''tracker.net''" by code_simp
  then have hn: "isHostName ''tracker.net''" by (simp only: isHostLabelRun_iff)
  have "isSimpleDomain ''tracker.net''" by code_simp
  then have pl: "isPlainDomain ''tracker.net''" by (simp only: isSimpleDomain_iff)
  have nh: "\<not> hasElementHiding ''||tracker.net''" by code_simp
  have dot: "CHR ''.'' \<in> set ''tracker.net''" by simp
  have sh: "''||tracker.net'' = ''||'' @ ''tracker.net''" by simp
  have listed: "isListedDomainRule (trim ''||tracker.net'') ''tracker.net''"
    unfolding tr isListedDomainRule_def using hn dot nh sh pl by blast
  from t have compl: "''||tracker.net'' \<in> set (splitOn newline sampleList) \<and>
      isListedDomainRule (trim ''||tracker.net'') ''tracker.net'' \<longrightarrow>
      toLowerCase ''tracker.net'' \<in> set (parseBlocklistContent sampleList (Some Easylist))"
    by (elim conjE)
  have lt: "toLowerCase ''tracker.net'' = ''tracker.net''" by code_simp
  from mp[OF compl conjI[OF mem listed]]
  have got: "''tracker.net'' \<in> set (parseBlocklistContent sampleList (Some Easylist))"
    unfolding lt .
  have din: "''tracker.net'' \<in> set (parseBlocklistContent sampleList (Some Easylist))"
    unfolding v by simp
  from t have sound: "''tracker.net'' \<in> set (parseBlocklistContent sampleList (Some Easylist)) \<longrightarrow>
      (\<exists>raw\<in>set (splitOn newline sampleList).
         \<exists>g. isDomainRule (trim raw) g \<and> ''tracker.net'' = toLowerCase g)"
    by (elim conjE)
  from mp[OF sound din]
  have src: "\<exists>raw\<in>set (splitOn newline sampleList).
      \<exists>g. isDomainRule (trim raw) g \<and> ''tracker.net'' = toLowerCase g" .
  have junk: "''not a rule'' \<in> set (splitOn newline sampleList)" by code_simp
  have skipped: "''not a rule'' \<notin> set (parseBlocklistContent sampleList (Some Easylist))"
    unfolding v by simp
  have "isHostLabelRun ''www.example.com''" by code_simp
  then have wh': "isHostName ''www.example.com''" by (simp only: isHostLabelRun_iff)
  then have wh: "isHostName (''www.'' @ ''example.com'')" by simp
  have "isSimpleDomain ''www.example.com''" by code_simp
  then have wp': "isPlainDomain ''www.example.com''" by (simp only: isSimpleDomain_iff)
  then have wp: "isPlainDomain (''www.'' @ ''example.com'')" by simp
  from t have w1: "isHostName (''www.'' @ ''example.com'') \<longrightarrow>
      parseBlocklistContent (''||www.'' @ ''example.com'' @ ''^'') (Some Easylist) =
        [''www.'' @ toLowerCase ''example.com''] \<and>
      parseBlocklistContent (''0.0.0.0 www.'' @ ''example.com'') (Some Hosts) =
        [''www.'' @ toLowerCase ''example.com'']"
    by (elim conjE)
  from t have w2: "isPlainDomain (''www.'' @ ''example.com'') \<longrightarrow>
      parseBlocklistContent (''www.'' @ ''example.com'') (Some Domains) =
        [''www.'' @ toLowerCase ''example.com'']"
    by (elim conjE)
  have le: "toLowerCase ''example.com'' = ''example.com''" by code_simp
  from mp[OF w1 wh]
  have e1: "parseBlocklistContent ''||www.example.com^'' (Some Easylist) = [''www.example.com'']"
    and e2: "parseBlocklistContent ''0.0.0.0 www.example.com'' (Some Hosts) = [''www.example.com'']"
    unfolding le by simp_all
  from mp[OF w2 wp]
  have e3: "parseBlocklistContent ''www.example.com'' (Some Domains) = [''www.example.com'']"
    unfolding le by simp
  show ?thesis
    by (intro conjI v dl lo mem listed got src junk skipped wh' e1 e2 wp' e3 vn)
qed

text \<open>
  The claim as stated fails in its third part: every format keeps a \<open>www.\<close> prefix.
\<close>

theorem parser_keeps_www_counterexample:
  "''www.example.com'' \<in> set (parseBlocklistContent ''||www.example.com^'' (Some Easylist)) \<and>
   startsWith ''www.example.com'' ''www.'' \<and>
   ''www.example.com'' \<in> set (parseBlocklistContent ''0.0.0.0 www.example.com'' (Some Hosts)) \<and>
   ''www.example.com'' \<in> set (parseBlocklistContent ''www.example.com'' (Some Domains)) \<and>
   ''www.example.com'' \<in> set (parseBlocklistContent ''www.example.com'' None)"
  by code_simp

section \<open>Properties of the blocklist store\<close>

lemma set_addDomains:
  "set (foldl (\<lambda>allDomains d. addDomain d allDomains) acc ds) = set acc \<union> set ds"
  by (induction ds arbitrary: acc) (auto simp: addDomain_def)

lemma set_getExternalAndLocalDomains:
  "set (getExternalAndLocalDomains bundled st) =
     (\<Union>e\<in>set (externalBlocklistCache st). set (snd e)) \<union>
     (\<Union>e\<in>set (localBlocklistCache st). set (snd e)) \<union> set bundled"
  by (auto simp: getExternalAndLocalDomains_def set_addDomains)

lemma set_mapSet: "set (mapSet k v m) = insert (k, v) {x \<in> set m. fst x \<noteq> k}"
  by (auto simp: mapSet_def)

lemma keys_mapSet: "fst ` set (mapSet k v m) = insert k (fst ` set m)"
  by (force simp: set_mapSet)

lemma filter_replace_other:
  "k \<noteq> k' \<Longrightarrow>
   filter (\<lambda>x. fst x = k) (map (\<lambda>e. if fst e = k' then (k', v) else e) m) =
   filter (\<lambda>x. fst x = k) m"
  by (induction m) auto

lemma filter_mapSet_other:
  "k \<noteq> k' \<Longrightarrow> filter (\<lambda>x. fst x = k) (mapSet k' v m) = filter (\<lambda>x. fst x = k) m"
  by (simp add: mapSet_def filter_replace_other)

lemma external_foldl_cacheFetchResult:
  "externalBlocklistCache (foldl cacheFetchResult st rs) =
     foldl cacheStep (externalBlocklistCache st) rs"
  by (induction rs arbitrary: st) (auto simp: cacheFetchResult_def cacheStep_def)

lemma local_foldl_cacheFetchResult:
  "localBlocklistCache (foldl cacheFetchResult st rs) = localBlocklistCache st"
  by (induction rs arbitrary: st) (auto simp: cacheFetchResult_def)

lemma keys_foldl_cacheStep:
  "fst ` set (foldl cacheStep m rs) \<subseteq> fst ` set m \<union> fst ` set rs"
proof (induction rs arbitrary: m)
  case Nil
  show ?case by simp
next
  case (Cons r rs)
  have "fst ` set (cacheStep m r) \<subseteq> insert (fst r) (fst ` set m)"
    by (auto simp: cacheStep_def keys_mapSet)
  with Cons.IH[of "cacheStep m r"] show ?case by auto
qed

lemma foldl_cacheStep_extra:
  "k \<notin> fst ` set rs \<Longrightarrow> set m' = insert (k, ds) (set m) \<Longrightarrow>
   set (foldl cacheStep m' rs) = insert (k, ds) (set (foldl cacheStep m rs))"
proof (induction rs arbitrary: m m')
  case Nil
  then show ?case by simp
next
  case (Cons r rs)
  from Cons.prems have ne: "fst r \<noteq> k" and rest: "k \<notin> fst ` set rs" by auto
  have "set (cacheStep m' r) = insert (k, ds) (set (cacheStep m r))"
    using Cons.prems(2) ne by (auto simp: cacheStep_def set_mapSet)
  from Cons.IH[OF rest this] show ?case by simp
qed

lemma foldl_cacheStep_filter:
  "k \<notin> fst ` set rs \<Longrightarrow>
   filter (\<lambda>x. fst x = k) (foldl cacheStep m rs) = filter (\<lambda>x. fst x = k) m"
proof (induction rs arbitrary: m)
  case Nil
  show ?case by simp
next
  case (Cons r rs)
  from Cons.prems have ne: "k \<noteq> fst r" and rest: "k \<notin> fst ` set rs" by auto
  have "filter (\<lambda>x. fst x = k) (cacheStep m r) = filter (\<lambda>x. fst x = k) m"
    using ne by (simp add: cacheStep_def filter_mapSet_other)
  with Cons.IH[OF rest, of "cacheStep m r"] show ?case by simp
qed

lemma foldl_cacheStep_insert_new:
  assumes "k \<notin> fst ` set m" "k \<notin> fst ` set rs1" "k \<notin> fst ` set rs2"
  shows "set (foldl cacheStep m (rs1 @ [(k, ds)] @ rs2)) =
           (if ds = [] then set (foldl cacheStep m (rs1 @ rs2))
            else insert (k, ds) (set (foldl cacheStep m (rs1 @ rs2))))"
proof (cases "ds = []")
  case True
  then show ?thesis by (simp add: cacheStep_def)
next
  case False
  let ?m1 = "foldl cacheStep m rs1"
  from keys_foldl_cacheStep[of m rs1] assms have "k \<notin> fst ` set ?m1" by auto
  then have "set (cacheStep ?m1 (k, ds)) = insert (k, ds) (set ?m1)"
    using False by (auto simp: cacheStep_def set_mapSet)
  from foldl_cacheStep_extra[OF assms(3) this] False show ?thesis by simp
qed

lemma fetchResults_append:
  "fetchResults fetch (a @ b) = fetchResults fetch a @ fetchResults fetch b"
  by (simp add: fetchResults_def getEnabledEndpoints_def)

lemma fetchResults_keys: "fst ` set (fetchResults fetch eps) \<subseteq> endpointId ` set eps"
  by (auto simp: fetchResults_def getEnabledEndpoints_def)

lemma initializeBlocklists_external:
  "externalBlocklistCache (initializeBlocklists eps fetch loadedLocal now st) =
     (if isInitialized st \<and> now - lastUpdateTimestamp st < UPDATE_INTERVAL_MS
      then externalBlocklistCache st
      else foldl cacheStep (externalBlocklistCache st) (fetchResults fetch eps))"
  by (simp add: initializeBlocklists_def Let_def external_foldl_cacheFetchResult fetchResults_def)

lemma initializeBlocklists_local:
  "localBlocklistCache (initializeBlocklists eps fetch loadedLocal now st) =
     (if isInitialized st \<and> now - lastUpdateTimestamp st < UPDATE_INTERVAL_MS
      then localBlocklistCache st else loadedLocal)"
  by (simp add: initializeBlocklists_def Let_def local_foldl_cacheFetchResult)

lemma new_source_grows:
  assumes new1: "endpointId e \<notin> endpointId ` set (eps1 @ eps2)"
      and new2: "endpointId e \<notin> fst ` set (externalBlocklistCache st)"
  shows "set (getExternalAndLocalDomains bundled
                (initializeBlocklists (eps1 @ eps2) fetch loadedLocal now st))
         \<subseteq> set (getExternalAndLocalDomains bundled
                (initializeBlocklists (eps1 @ [e] @ eps2) fetch loadedLocal now st))"
proof -
  let ?k = "endpointId e"
  let ?m = "externalBlocklistCache st"
  from new1 fetchResults_keys[of fetch eps1] fetchResults_keys[of fetch eps2]
  have k1: "?k \<notin> fst ` set (fetchResults fetch eps1)"
    and k2: "?k \<notin> fst ` set (fetchResults fetch eps2)" by auto
  have "set (foldl cacheStep ?m (fetchResults fetch (eps1 @ eps2))) \<subseteq>
        set (foldl cacheStep ?m (fetchResults fetch (eps1 @ [e] @ eps2)))"
  proof (cases "enabled e")
    case True
    then have eq: "fetchResults fetch (eps1 @ [e] @ eps2) =
                   fetchResults fetch eps1 @ [(?k, fetchBlocklist fetch e)] @
                   fetchResults fetch eps2"
      by (simp add: fetchResults_def getEnabledEndpoints_def)
    have "set (foldl cacheStep ?m (fetchResults fetch eps1 @ fetchResults fetch eps2)) \<subseteq>
          set (foldl cacheStep ?m (fetchResults fetch eps1 @ [(?k, fetchBlocklist fetch e)] @
                                   fetchResults fetch eps2))"
      unfolding foldl_cacheStep_insert_new[OF new2 k1 k2] by auto
    then show ?thesis
      unfolding eq by (simp only: fetchResults_append)
  next
    case False
    then have "fetchResults fetch (eps1 @ [e] @ eps2) = fetchResults fetch (eps1 @ eps2)"
      by (simp add: fetchResults_def getEnabledEndpoints_def)
    then show ?thesis by simp
  qed
  then show ?thesis
    by (auto simp: set_getExternalAndLocalDomains initializeBlocklists_external
        initializeBlocklists_local)
qed

lemma failed_fetch_empty:
  "fetch (endpointUrl e) = FetchRejected \<or> fetch (endpointUrl e) = HttpNotOk \<Longrightarrow>
   fetchBlocklist fetch e = []"
  by (auto simp: fetchBlocklist_def)

lemma empty_result_ignored:
  assumes "fetchBlocklist fetch e = []"
  shows "initializeBlocklists (eps1 @ [e] @ eps2) fetch loadedLocal now st =
         initializeBlocklists (eps1 @ eps2) fetch loadedLocal now st"
proof -
  have "foldl cacheFetchResult s
          (map (\<lambda>endpoint. (endpointId endpoint, fetchBlocklist fetch endpoint))
             (getEnabledEndpoints (eps1 @ [e] @ eps2))) =
        foldl cacheFetchResult s
          (map (\<lambda>endpoint. (endpointId endpoint, fetchBlocklist fetch endpoint))
             (getEnabledEndpoints (eps1 @ eps2)))" for s
    using assms by (simp add: getEnabledEndpoints_def cacheFetchResult_def)
  then show ?thesis by (simp add: initializeBlocklists_def Let_def)
qed

lemma previous_cache_kept:
  assumes "fetchBlocklist fetch e = []"
      and "endpointId e \<notin> endpointId ` set (eps1 @ eps2)"
  shows "filter (\<lambda>x. fst x = endpointId e)
           (externalBlocklistCache (initializeBlocklists (eps1 @ [e] @ eps2) fetch loadedLocal now st))
         = filter (\<lambda>x. fst x = endpointId e) (externalBlocklistCache st)"
proof -
  from assms(2) fetchResults_keys[of fetch "eps1 @ eps2"]
  have "endpointId e \<notin> fst ` set (fetchResults fetch (eps1 @ eps2))" by auto
  from foldl_cacheStep_filter[OF this]
  show ?thesis
    unfolding empty_result_ignored[OF assms(1)]
    by (simp add: initializeBlocklists_external)
qed

text \<open>
  C6.  Other things equal (the same network, local files, clock and store), a run of
  \<open>initializeBlocklists\<close> with one more endpoint, whose id is new to the endpoint list and
  to the cache, yields an aggregate that contains the aggregate of the run without it.
  A fetch that rejects or answers with an error status contributes the empty list, which
  leaves the store as it is; the run with the failing endpoint is the run without it, so
  the other endpoints are fetched and cached all the same, and what the cache held for
  the failing endpoint is still there.
\<close>

theorem aggregate_monotone_failure_stable:
  "(endpointId e \<notin> endpointId ` set (eps1 @ eps2) \<and>
    endpointId e \<notin> fst ` set (externalBlocklistCache st) \<longrightarrow>
      set (getExternalAndLocalDomains bundled
             (initializeBlocklists (eps1 @ eps2) fetch loadedLocal now st))
      \<subseteq> set (getExternalAndLocalDomains bundled
             (initializeBlocklists (eps1 @ [e] @ eps2) fetch loadedLocal now st))) \<and>
   (fetch (endpointUrl e) = FetchRejected \<or> fetch (endpointUrl e) = HttpNotOk \<longrightarrow>
      fetchBlocklist fetch e = [] \<and>
      cacheFetchResult st (endpointId e, fetchBlocklist fetch e) = st \<and>
      initializeBlocklists (eps1 @ [e] @ eps2) fetch loadedLocal now st =
        initializeBlocklists (eps1 @ eps2) fetch loadedLocal now st \<and>
      (endpointId e \<notin> endpointId ` set (eps1 @ eps2) \<longrightarrow>
         filter (\<lambda>x. fst x = endpointId e)
           (externalBlocklistCache
              (initializeBlocklists (eps1 @ [e] @ eps2) fetch loadedLocal now st))
         = filter (\<lambda>x. fst x = endpointId e) (externalBlocklistCache st)))"
proof (intro conjI impI)
  assume "endpointId e \<notin> endpointId ` set (eps1 @ eps2) \<and>
          endpointId e \<notin> fst ` set (externalBlocklistCache st)"
  then show "set (getExternalAndLocalDomains bundled
             (initializeBlocklists (eps1 @ eps2) fetch loadedLocal now st))
      \<subseteq> set (getExternalAndLocalDomains bundled
             (initializeBlocklists (eps1 @ [e] @ eps2) fetch loadedLocal now st))"
    using new_source_grows by blast
next
  assume f: "fetch (endpointUrl e) = FetchRejected \<or> fetch (endpointUrl e) = HttpNotOk"
  then show empty: "fetchBlocklist fetch e = []" by (rule failed_fetch_empty)
  then show "cacheFetchResult st (endpointId e, fetchBlocklist fetch e) = st"
    by (simp add: cacheFetchResult_def)
  from empty show "initializeBlocklists (eps1 @ [e] @ eps2) fetch loadedLocal now st =
        initializeBlocklists (eps1 @ eps2) fetch loadedLocal now st"
    by (rule empty_result_ignored)
  assume "endpointId e \<notin> endpointId ` set (eps1 @ eps2)"
  with empty show "filter (\<lambda>x. fst x = endpointId e)
           (externalBlocklistCache
              (initializeBlocklists (eps1 @ [e] @ eps2) fetch loadedLocal now st))
         = filter (\<lambda>x. fst x = endpointId e) (externalBlocklistCache st)"
    by (rule previous_cache_kept)
qed

text \<open>
  Three endpoints: an EasyList source, a hosts source that is added, and a source whose
  fetch fails.
\<close>

theorem aggregate_monotone_failure_stable_witness:
  "endpointId (sampleEndpoint ''hosts'' Hosts) \<notin>
     endpointId ` set ([sampleEndpoint ''ads'' Easylist] @ [sampleEndpoint ''down'' Domains]) \<and>
   endpointId (sampleEndpoint ''hosts'' Hosts) \<notin>
     fst ` set (externalBlocklistCache initialBlocklistState) \<and>
   getExternalAndLocalDomains [] (initializeBlocklists
       ([sampleEndpoint ''ads'' Easylist] @ [sampleEndpoint ''down'' Domains])
       sampleFetch [] 1000 initialBlocklistState) = [''ads.example.com''] \<and>
   getExternalAndLocalDomains [] (initializeBlocklists
       ([sampleEndpoint ''ads'' Easylist] @ [sampleEndpoint ''hosts'' Hosts] @
        [sampleEndpoint ''down'' Domains])
       sampleFetch [] 1000 initialBlocklistState) = [''ads.example.com'', ''tracker.example.net''] \<and>
   set (getExternalAndLocalDomains [] (initializeBlocklists
       ([sampleEndpoint ''ads'' Easylist] @ [sampleEndpoint ''down'' Domains])
       sampleFetch [] 1000 initialBlocklistState))
   \<subseteq> set (getExternalAndLocalDomains [] (initializeBlocklists
       ([sampleEndpoint ''ads'' Easylist] @ [sampleEndpoint ''hosts'' Hosts] @
        [sampleEndpoint ''down'' Domains])
       sampleFetch [] 1000 initialBlocklistState)) \<and>
   sampleFetch (endpointUrl (sampleEndpoint ''down'' Domains)) = FetchRejected \<and>
   initializeBlocklists ([sampleEndpoint ''ads'' Easylist] @ [sampleEndpoint ''down'' Domains] @ [])
       sampleFetch [] 1000 initialBlocklistState =
   initializeBlocklists ([sampleEndpoint ''ads'' Easylist] @ [])
       sampleFetch [] 1000 initialBlocklistState"
proof -
  let ?a = "sampleEndpoint ''ads'' Easylist"
  let ?h = "sampleEndpoint ''hosts'' Hosts"
  let ?d = "sampleEndpoint ''down'' Domains"
  have n1: "endpointId ?h \<notin> endpointId ` set ([?a] @ [?d])" by code_simp
  have n2: "endpointId ?h \<notin> fst ` set (externalBlocklistCache initialBlocklistState)"
    by code_simp
  have v1: "getExternalAndLocalDomains [] (initializeBlocklists ([?a] @ [?d])
              sampleFetch [] 1000 initialBlocklistState) = [''ads.example.com'']"
    by code_simp
  have v2: "getExternalAndLocalDomains [] (initializeBlocklists ([?a] @ [?h] @ [?d])
              sampleFetch [] 1000 initialBlocklistState)
            = [''ads.example.com'', ''tracker.example.net'']"
    by code_simp
  have f: "sampleFetch (endpointUrl ?d) = FetchRejected" by code_simp
  note grow = mp[OF conjunct1[OF aggregate_monotone_failure_stable
                  [of ?h "[?a]" "[?d]" initialBlocklistState "[]" sampleFetch "[]" 1000]]
                conjI[OF n1 n2]]
  note fail = mp[OF conjunct2[OF aggregate_monotone_failure_stable
                  [of ?d "[?a]" "[]" initialBlocklistState "[]" sampleFetch "[]" 1000]]
                disjI1[OF f]]
  from fail have same: "initializeBlocklists ([?a] @ [?d] @ []) sampleFetch [] 1000
                          initialBlocklistState =
                        initializeBlocklists ([?a] @ []) sampleFetch [] 1000
                          initialBlocklistState"
    by (elim conjE)
  from n1 n2 v1 v2 grow f same show ?thesis by (intro conjI)
qed

end
